theory Spec2Isabelle
  imports Main "HOL-Library.Word"
begin

unbundle bit_operations_syntax

section \<open>The S3 object transport of the canary (canary/S3ObjectTransport.cpp)\<close>

text \<open>
  The transport issues signed HTTP requests against one bucket endpoint, spreads them
  over per-address connection managers and drives multipart uploads. The collaborators
  it calls (host resolver, signer, connection managers, HTTP streams, the part
  processor) are not part of the file; what they deliver is an input of the model.
  Logging and metric emission change nothing the transport reads and are left out.
\<close>

subsection \<open>Constants and error codes\<close>

definition TransfersPerAddress :: "32 word" where
  "TransfersPerAddress = 10"

definition S3GetObjectResponseStatus_PartialContent :: int where
  "S3GetObjectResponseStatus_PartialContent = 206"

text \<open>
  Error codes are the integer enumeration of the common runtime library. The transport
  only compares a code with \<open>AWS_ERROR_SUCCESS\<close> (the code 0) and replaces it by
  \<open>AWS_ERROR_UNKNOWN\<close>; every other code is passed through unchanged, so the
  enumeration is a datatype with these two members and one constructor for the rest.
\<close>

datatype aws_error = AWS_ERROR_SUCCESS | AWS_ERROR_UNKNOWN | AWS_ERROR_OTHER nat

text \<open>
  What stops a call without a result: the remainder by an empty manager list
  (undefined in C++), a failed \<open>AWS_FATAL_ASSERT\<close>, and the read of a C string that
  leaves the memory that can be read (undefined in C++).
\<close>

datatype fault = DivisionByZero | FatalAssert | ReadOutOfBounds

subsection \<open>Address book and connection fabric\<close>

text \<open>
  \<open>ByteCursorFromCString(s.c_str())\<close>: the bytes of the string up to its first NUL
  byte; the buffer of a string always ends with one.
\<close>

definition ByteCursorFromCString :: "string \<Rightarrow> string" where
  "ByteCursorFromCString s = takeWhile (\<lambda>c. c \<noteq> CHR 0x00) s"

datatype aws_address_record_type = AWS_ADDRESS_RECORD_TYPE_A | AWS_ADDRESS_RECORD_TYPE_AAAA

record HostAddress =
  address :: string
  record_type :: aws_address_record_type

text \<open>
  The host resolver is a collaborator. Its behaviour is given by the answer to the
  \<open>i\<close>-th call of \<open>GetHostAddressCount\<close> (already narrowed to the
  \<open>uint32_t\<close> it is assigned to) and by the addresses delivered to the
  \<open>i\<close>-th awaited \<open>ResolveHost\<close>; its state is the number of calls made so
  far. The first \<open>ResolveHost\<close> of \<open>WarmDNSCache\<close> has an empty callback and
  is not counted.
\<close>

record HostResolver =
  countAnswers :: "nat \<Rightarrow> 32 word"
  resolveAnswers :: "nat \<Rightarrow> HostAddress list"
  countCalls :: nat
  resolveCalls :: nat

text \<open>
  A connection manager is modelled by the options it was created with; the factory's
  result is pushed into the list whatever it is.
\<close>

record ConnectionManager =
  HostName :: string
  Port :: nat
  ConnectTimeoutMs :: nat
  TlsServerName :: "string option"
  MaxConnections :: nat

text \<open>
  The members of the transport the modelled functions read or write. The counters are
  declared in the class header, which is not among the sources; they are taken as 32-bit
  unsigned, the type of the \<open>index\<close> and of \<open>TransfersPerAddress\<close> they are
  combined with.
\<close>

record S3ObjectTransport =
  m_endpoint :: string
  sendEncrypted :: bool
  m_addressCache :: "string list"
  m_connManagers :: "ConnectionManager list"
  m_connManagersUseCount :: "32 word"
  m_activeRequestsCount :: "32 word"

definition desiredNumberOfAddresses :: "32 word \<Rightarrow> 32 word" where
  "desiredNumberOfAddresses numTransfers =
     (if numTransfers mod TransfersPerAddress > 0
      then numTransfers div TransfersPerAddress + 1
      else numTransfers div TransfersPerAddress)"

text \<open>
  The polling loop of \<open>WarmDNSCache\<close>: ask for the address count, and ask again
  while it is below the target. A resolver that never reaches the target keeps the loop
  running: the result is \<open>None\<close>.
\<close>

partial_function (option) WarmDNSCache_poll :: "HostResolver \<Rightarrow> 32 word \<Rightarrow> HostResolver option" where
  "WarmDNSCache_poll r desired =
     (if countAnswers r (countCalls r) < desired
      then WarmDNSCache_poll (r\<lparr>countCalls := countCalls r + 1\<rparr>) desired
      else Some (r\<lparr>countCalls := countCalls r + 1\<rparr>))"

definition nonAAAA :: "HostAddress list \<Rightarrow> string list" where
  "nonAAAA addresses =
     map address (filter (\<lambda>addr. record_type addr \<noteq> AWS_ADDRESS_RECORD_TYPE_AAAA) addresses)"

text \<open>
  The filling loop: while the cache is shorter than the target, await one resolution
  and append its addresses that are not AAAA records.
\<close>

partial_function (option) WarmDNSCache_fill ::
  "HostResolver \<Rightarrow> 32 word \<Rightarrow> string list \<Rightarrow> (string list \<times> HostResolver) option" where
  "WarmDNSCache_fill r desired cache =
     (if (of_nat (length cache) :: 32 word) < desired
      then WarmDNSCache_fill (r\<lparr>resolveCalls := resolveCalls r + 1\<rparr>) desired
             (cache @ nonAAAA (resolveAnswers r (resolveCalls r)))
      else Some (cache, r))"

definition WarmDNSCache ::
  "HostResolver \<Rightarrow> S3ObjectTransport \<Rightarrow> 32 word \<Rightarrow> (S3ObjectTransport \<times> HostResolver) option" where
  "WarmDNSCache r t numTransfers =
     (case WarmDNSCache_poll r (desiredNumberOfAddresses numTransfers) of
        None \<Rightarrow> None
      | Some r1 \<Rightarrow>
          (case WarmDNSCache_fill r1 (desiredNumberOfAddresses numTransfers) [] of
             None \<Rightarrow> None
           | Some (cache, r2) \<Rightarrow> Some (t\<lparr>m_addressCache := cache\<rparr>, r2)))"

definition SeedAddressCache :: "S3ObjectTransport \<Rightarrow> string \<Rightarrow> S3ObjectTransport" where
  "SeedAddressCache t addr = t\<lparr>m_addressCache := [] @ [addr]\<rparr>"

definition PurgeConnectionManagers :: "S3ObjectTransport \<Rightarrow> S3ObjectTransport" where
  "PurgeConnectionManagers t = t\<lparr>m_connManagers := [], m_connManagersUseCount := 0\<rparr>"

definition NewClientConnectionManager :: "S3ObjectTransport \<Rightarrow> string \<Rightarrow> ConnectionManager" where
  "NewClientConnectionManager t addr =
     \<lparr>HostName = addr,
      Port = (if sendEncrypted t then 443 else 80),
      ConnectTimeoutMs = 3000,
      TlsServerName = (if sendEncrypted t then Some (ByteCursorFromCString (m_endpoint t)) else None),
      MaxConnections = 5000\<rparr>"

definition SpawnConnectionManagers :: "S3ObjectTransport \<Rightarrow> S3ObjectTransport" where
  "SpawnConnectionManagers t =
     (let t0 = PurgeConnectionManagers t
      in t0\<lparr>m_connManagers :=
              m_connManagers t0 @ map (NewClientConnectionManager t0) (m_addressCache t0)\<rparr>)"

text \<open>
  The index computation of \<open>GetNextConnManager\<close>: the old counter value plus one
  (32-bit, wrapping), divided by \<open>TransfersPerAddress\<close>, reduced modulo the number of
  managers (a \<open>size_t\<close>), and narrowed to the \<open>uint32_t index\<close>.
\<close>

definition nextIndex :: "32 word \<Rightarrow> nat \<Rightarrow> 32 word" where
  "nextIndex useCount numManagers =
     of_nat (unat ((useCount + 1) div TransfersPerAddress) mod numManagers)"

definition GetNextConnManager ::
  "HostResolver \<Rightarrow> S3ObjectTransport \<Rightarrow>
     (fault + (ConnectionManager \<times> S3ObjectTransport \<times> HostResolver)) option" where
  "GetNextConnManager r t =
     (case (if length (m_connManagers t) = 0
            then map_option (\<lambda>(t', r'). (SpawnConnectionManagers t', r')) (WarmDNSCache r t 1)
            else Some (t, r)) of
        None \<Rightarrow> None
      | Some (t1, r1) \<Rightarrow>
          (if length (m_connManagers t1) = 0 then Some (Inl DivisionByZero)
           else Some (Inr (m_connManagers t1 !
                             unat (nextIndex (m_connManagersUseCount t1) (length (m_connManagers t1))),
                           t1\<lparr>m_connManagersUseCount := m_connManagersUseCount t1 + 1\<rparr>,
                           r1))))"

text \<open>
  Successive calls: \<open>GetNextConnManager_nth k\<close> makes \<open>k\<close> calls and returns what the
  next one, the \<open>k\<close>-th counted from 0, returns.
\<close>

fun GetNextConnManager_nth ::
  "nat \<Rightarrow> HostResolver \<Rightarrow> S3ObjectTransport \<Rightarrow>
     (fault + (ConnectionManager \<times> S3ObjectTransport \<times> HostResolver)) option" where
  "GetNextConnManager_nth 0 r t = GetNextConnManager r t"
| "GetNextConnManager_nth (Suc k) r t =
     (case GetNextConnManager r t of
        None \<Rightarrow> None
      | Some (Inl f) \<Rightarrow> Some (Inl f)
      | Some (Inr (m, t', r')) \<Rightarrow> GetNextConnManager_nth k r' t')"

text \<open>The manager a call returned, if it returned one.\<close>

definition returnedManager ::
  "(fault + (ConnectionManager \<times> S3ObjectTransport \<times> HostResolver)) option \<Rightarrow> ConnectionManager option" where
  "returnedManager res = (case res of Some (Inr (m, _, _)) \<Rightarrow> Some m | _ \<Rightarrow> None)"

subsection \<open>The signed request pipeline\<close>

text \<open>
  What the collaborators deliver to one request. The signer reports an error code. The
  connection manager's \<open>AcquireConnection\<close> delivers a connection pointer (\<open>None\<close>
  is \<open>nullptr\<close>) and an error code. \<open>NewClientStream\<close> returns \<open>nullptr\<close>
  (\<open>None\<close>) or a stream; an activated stream delivers its header blocks, then its body
  chunks, then one completion with an error code, and answers
  \<open>GetResponseStatusCode\<close>.
\<close>

type_synonym HttpHeader = "string \<times> string"

text \<open>
  A byte cursor is a length and a pointer. The pointer is given by the memory it points
  to: the bytes from the pointer on, as far as they can be read. The bytes of the cursor
  are the first \<open>len\<close> of them; what follows is the memory behind the cursor.
\<close>

record ByteCursor =
  len :: nat
  ptr :: string

record HttpStream =
  incomingHeaders :: "HttpHeader list list"
  incomingBody :: "ByteCursor list"
  completionErrorCode :: aws_error
  ResponseStatusCode :: int

datatype HttpClientConnection = HttpClientConnection (IsOpen: bool)

record RequestOutcome =
  signingErrorCode :: aws_error
  acquiredConnection :: "HttpClientConnection option"
  acquireErrorCode :: aws_error
  clientStream :: "HttpStream option"

text \<open>
  The result of a call that may not return (\<open>None\<close>) or stop at a fault
  (\<open>Some (Inl f)\<close>).
\<close>

type_synonym 'a run = "(fault + 'a) option"

definition bind_run :: "'a run \<Rightarrow> ('a \<Rightarrow> 'b run) \<Rightarrow> 'b run" where
  "bind_run x f = (case x of None \<Rightarrow> None | Some (Inl e) \<Rightarrow> Some (Inl e) | Some (Inr a) \<Rightarrow> f a)"

text \<open>
  The callbacks of a request. A callback works on the variables its lambda captured by
  shared pointer (the state \<open>'s\<close>) and may invoke callbacks of the caller, which the
  model records as a list of invocations \<open>'e\<close>. \<open>None\<close> is a null callback.
\<close>

record ('s, 'e) HttpRequestOptions =
  onIncomingHeaders :: "(HttpHeader list \<Rightarrow> 's \<Rightarrow> 's \<times> 'e list) option"
  onIncomingBody :: "(ByteCursor \<Rightarrow> 's \<Rightarrow> 's \<times> 'e list) option"
  onStreamComplete :: "(HttpStream \<Rightarrow> aws_error \<Rightarrow> 's \<Rightarrow> 's \<times> 'e list) option"

definition invoke ::
  "('a \<Rightarrow> 's \<Rightarrow> 's \<times> 'e list) option \<Rightarrow> 'a \<Rightarrow> 's \<times> 'e list \<Rightarrow> 's \<times> 'e list" where
  "invoke cb x acc =
     (case cb of
        None \<Rightarrow> acc
      | Some f \<Rightarrow> (case f x (fst acc) of (s', es) \<Rightarrow> (s', snd acc @ es)))"

definition deliver :: "('s, 'e) HttpRequestOptions \<Rightarrow> HttpStream \<Rightarrow> 's \<Rightarrow> 's \<times> 'e list" where
  "deliver opts stream s =
     fold (invoke (onIncomingBody opts)) (incomingBody stream)
       (fold (invoke (onIncomingHeaders opts)) (incomingHeaders stream) (s, []))"

text \<open>
  \<open>MakeSignedRequest_SendRequest\<close>: assert the connection open, count the request
  in, open the stream with the completion callback wrapped (count the request out, then
  the caller's callback unless it is null), and activate the stream unless it is null. A
  null stream is logged and nothing else happens.
\<close>

definition MakeSignedRequest_SendRequest ::
  "S3ObjectTransport \<Rightarrow> HttpClientConnection \<Rightarrow> ('s, 'e) HttpRequestOptions \<Rightarrow>
     HttpStream option \<Rightarrow> 's \<Rightarrow> (S3ObjectTransport \<times> 's \<times> 'e list) run" where
  "MakeSignedRequest_SendRequest t conn requestOptions newStream s =
     (if \<not> IsOpen conn then Some (Inl FatalAssert)
      else
        (let t1 = t\<lparr>m_activeRequestsCount := m_activeRequestsCount t + 1\<rparr>
         in case newStream of
              None \<Rightarrow> Some (Inr (t1, s, []))
            | Some stream \<Rightarrow>
                (case deliver requestOptions stream s of
                   (s1, es1) \<Rightarrow>
                     (let t2 = t1\<lparr>m_activeRequestsCount := m_activeRequestsCount t1 - 1\<rparr>
                      in case onStreamComplete requestOptions of
                           None \<Rightarrow> Some (Inr (t2, s1, es1))
                         | Some complete \<Rightarrow>
                             (case complete stream (completionErrorCode stream) s1 of
                                (s2, es2) \<Rightarrow> Some (Inr (t2, s2, es1 @ es2)))))))"

text \<open>
  \<open>MakeSignedRequest\<close>: sign; on a signing error call the callback with a null
  connection and stop. Otherwise take the next connection manager and acquire a
  connection; a null or closed connection without an error code becomes
  \<open>AWS_ERROR_UNKNOWN\<close>; without an error send the request; then call the callback
  with the connection and the error code. The callback only invokes callbacks of the
  caller.
\<close>

definition checkConnection :: "HttpClientConnection option \<Rightarrow> aws_error \<Rightarrow> aws_error" where
  "checkConnection conn connErrorCode =
     (if (case conn of None \<Rightarrow> True | Some c \<Rightarrow> \<not> IsOpen c) \<and> connErrorCode = AWS_ERROR_SUCCESS
      then AWS_ERROR_UNKNOWN else connErrorCode)"

definition MakeSignedRequest ::
  "HostResolver \<Rightarrow> S3ObjectTransport \<Rightarrow> ('s, 'e) HttpRequestOptions \<Rightarrow>
     (HttpClientConnection option \<Rightarrow> aws_error \<Rightarrow> 'e list) option \<Rightarrow> RequestOutcome \<Rightarrow> 's \<Rightarrow>
     (S3ObjectTransport \<times> HostResolver \<times> 's \<times> 'e list) run" where
  "MakeSignedRequest r t requestOptions callback outcome s =
     (if signingErrorCode outcome \<noteq> AWS_ERROR_SUCCESS
      then Some (Inr (t, r, s,
                      (case callback of
                         None \<Rightarrow> []
                       | Some cb \<Rightarrow> cb None (signingErrorCode outcome))))
      else
        bind_run (GetNextConnManager r t) (\<lambda>(connManager, t1, r1).
          (let conn = acquiredConnection outcome;
               connErrorCode = checkConnection conn (acquireErrorCode outcome)
           in bind_run
                (if connErrorCode = AWS_ERROR_SUCCESS
                 then (case conn of
                         None \<Rightarrow> Some (Inl FatalAssert)
                       | Some c \<Rightarrow>
                           MakeSignedRequest_SendRequest t1 c requestOptions (clientStream outcome) s)
                 else Some (Inr (t1, s, [])))
                (\<lambda>(t2, s2, es).
                   Some (Inr (t2, r1, s2,
                              es @ (case callback of
                                      None \<Rightarrow> []
                                    | Some cb \<Rightarrow> cb conn connErrorCode)))))))"

subsection \<open>Object operations\<close>

text \<open>
  Modelled from the spec: the value of \<open>EPutObjectFlags::RetrieveETag\<close> is declared in
  the class header, which is not among the sources; the spec (4.4) has it as the flag
  that \<open>flags & RetrieveETag\<close> tests, that is, one non-zero bit.
\<close>

definition RetrieveETag :: "32 word" where
  "RetrieveETag = 1"

text \<open>
  The header callback of \<open>PutObject\<close>: without an ETag buffer nothing; otherwise
  every header named exactly \<open>ETag\<close> overwrites the buffer with its value.
\<close>

definition PutObject_onIncomingHeaders :: "HttpHeader list \<Rightarrow> string option \<Rightarrow> string option" where
  "PutObject_onIncomingHeaders headersArray etag =
     (case etag of
        None \<Rightarrow> None
      | Some e \<Rightarrow>
          Some (fold (\<lambda>header e'. if fst header = ''ETag'' then snd header else e') headersArray e))"

text \<open>
  The completion callback shared by \<open>PutObject\<close>, \<open>GetObject\<close>,
  \<open>CompleteMultipartUpload\<close> and \<open>AbortMultipartUpload\<close>, up to the status that
  counts as success: a completion without error and with another status becomes
  \<open>AWS_ERROR_UNKNOWN\<close>.
\<close>

definition checkStatus :: "int \<Rightarrow> HttpStream \<Rightarrow> aws_error \<Rightarrow> aws_error" where
  "checkStatus successStatus stream errorCode =
     (if errorCode = AWS_ERROR_SUCCESS
      then (if ResponseStatusCode stream \<noteq> successStatus then AWS_ERROR_UNKNOWN else errorCode)
      else errorCode)"

text \<open>
  \<open>PutObject\<close>. The result lists the invocations of \<open>finishedCallback\<close>, each
  with its error code and ETag pointer (\<open>None\<close> is \<open>nullptr\<close>). A null body fails
  the assertion.
\<close>

definition PutObject ::
  "HostResolver \<Rightarrow> S3ObjectTransport \<Rightarrow> string \<Rightarrow> string option \<Rightarrow> 32 word \<Rightarrow> RequestOutcome \<Rightarrow>
     (S3ObjectTransport \<times> HostResolver \<times> (aws_error \<times> string option) list) run" where
  "PutObject r t key body flags outcome =
     (case body of
        None \<Rightarrow> Some (Inl FatalAssert)
      | Some b \<Rightarrow>
          (let etag = (if (flags AND RetrieveETag) \<noteq> 0 then Some [] else None);
               requestOptions =
                 \<lparr>onIncomingHeaders = Some (\<lambda>headersArray e. (PutObject_onIncomingHeaders headersArray e, [])),
                  onIncomingBody = None,
                  onStreamComplete = Some (\<lambda>stream errorCode e. (e, [(checkStatus 200 stream errorCode, e)]))\<rparr>
           in bind_run
                (MakeSignedRequest r t requestOptions
                   (Some (\<lambda>conn errorCode. if errorCode \<noteq> AWS_ERROR_SUCCESS then [(errorCode, None)] else []))
                   outcome etag)
                (\<lambda>(t', r', e, finished). Some (Inr (t', r', finished)))))"

text \<open>
  \<open>GetObject\<close>. The body callback is the caller's and is forwarded as it is; its
  invocations and those of \<open>getObjectFinished\<close> are the result.
\<close>

datatype GetObjectCall = OnIncomingBody ByteCursor | GetObjectFinished aws_error

definition GetObject_successStatus :: "32 word \<Rightarrow> int" where
  "GetObject_successStatus partNumber =
     (if partNumber > 0 then S3GetObjectResponseStatus_PartialContent else 200)"

definition GetObject ::
  "HostResolver \<Rightarrow> S3ObjectTransport \<Rightarrow> string \<Rightarrow> 32 word \<Rightarrow> RequestOutcome \<Rightarrow>
     (S3ObjectTransport \<times> HostResolver \<times> GetObjectCall list) run" where
  "GetObject r t key partNumber outcome =
     (let requestOptions =
            \<lparr>onIncomingHeaders = None,
             onIncomingBody = Some (\<lambda>data (u::unit). ((), [OnIncomingBody data])),
             onStreamComplete = Some (\<lambda>stream error (u::unit).
                ((), [GetObjectFinished (checkStatus (GetObject_successStatus partNumber) stream error)]))\<rparr>
      in bind_run
           (MakeSignedRequest r t requestOptions
              (Some (\<lambda>conn errorCode. if errorCode \<noteq> AWS_ERROR_SUCCESS then [GetObjectFinished errorCode] else []))
              outcome ())
           (\<lambda>(t', r', u, calls). Some (Inr (t', r', calls))))"

subsection \<open>Strings\<close>

text \<open>
  \<open>String((const char *)ptr)\<close> reads the memory at the pointer up to the first NUL
  byte, wherever that is. Without a NUL byte in the memory that can be read the read
  leaves it, which is undefined: \<open>None\<close>.
\<close>

definition String_of_ptr :: "string \<Rightarrow> string option" where
  "String_of_ptr memory =
     (if CHR 0x00 \<in> set memory then Some (takeWhile (\<lambda>c. c \<noteq> CHR 0x00) memory) else None)"

text \<open>
  \<open>std::string::find(pattern, pos)\<close>: the least index from \<open>pos\<close> on at which the
  pattern occurs, \<open>None\<close> for \<open>npos\<close>.
\<close>

fun find_at :: "string \<Rightarrow> string \<Rightarrow> nat \<Rightarrow> nat option" where
  "find_at pattern [] i = (if pattern = [] then Some i else None)"
| "find_at pattern (c # cs) i =
     (if take (length pattern) (c # cs) = pattern then Some i else find_at pattern cs (Suc i))"

definition string_find :: "string \<Rightarrow> string \<Rightarrow> nat \<Rightarrow> nat option" where
  "string_find s pattern pos = (if pos \<le> length s then find_at pattern (drop pos s) pos else None)"

text \<open>
  \<open>std::string::substr(pos, n)\<close> for \<open>pos\<close> within the string, the only way the
  transport calls it (the start is the end of a tag that was found).
\<close>

definition string_substr :: "string \<Rightarrow> nat \<Rightarrow> nat \<Rightarrow> string" where
  "string_substr s pos n = take n (drop pos s)"

text \<open>
  Subtraction of two \<open>size_t\<close> values (64-bit): the difference, wrapped around
  when the second is the larger.
\<close>

definition size_t_sub :: "nat \<Rightarrow> nat \<Rightarrow> nat" where
  "size_t_sub a b = (if b \<le> a then a - b else a + 2 ^ 64 - b)"

text \<open>Decimal output of an unsigned number, as \<open>operator<<\<close> writes it.\<close>

definition digit :: "nat \<Rightarrow> char" where
  "digit d = ''0123456789'' ! d"

fun decimal :: "nat \<Rightarrow> string" where
  "decimal n = (if n < 10 then [digit n] else decimal (n div 10) @ [digit (n mod 10)])"

declare decimal.simps [simp del]

subsection \<open>The requests of a multipart upload\<close>

definition uploadIdOpenTag :: string where
  "uploadIdOpenTag = ''<UploadId>''"

definition uploadIdCloseTag :: string where
  "uploadIdCloseTag = ''</UploadId>''"

text \<open>
  The body callback of \<open>CreateMultipartUpload\<close>, run on every chunk. The text it
  scans is the C string at the pointer of the chunk; the length of the chunk is not
  used. When the text has an opening tag and, from there on, a closing tag, the upload
  id becomes the text between them; otherwise it is left as it is. The captured upload
  id is \<open>None\<close> once a read has left the memory.
\<close>

definition CreateMultipartUpload_onIncomingBody :: "ByteCursor \<Rightarrow> string option \<Rightarrow> string option" where
  "CreateMultipartUpload_onIncomingBody data uploadId =
     (case uploadId of
        None \<Rightarrow> None
      | Some uploadId' \<Rightarrow>
          (case String_of_ptr (ptr data) of
             None \<Rightarrow> None
           | Some dataString \<Rightarrow>
               (case string_find dataString uploadIdOpenTag 0 of
                  None \<Rightarrow> Some uploadId'
                | Some uploadIdOpenIndex \<Rightarrow>
                    (case string_find dataString uploadIdCloseTag uploadIdOpenIndex of
                       None \<Rightarrow> Some uploadId'
                     | Some uploadIdCloseIndex \<Rightarrow>
                         (let uploadIdStart = uploadIdOpenIndex + length uploadIdOpenTag;
                              uploadIdLength = size_t_sub uploadIdCloseIndex uploadIdStart
                          in Some (string_substr dataString uploadIdStart uploadIdLength))))))"

definition CreateMultipartUpload_onStreamComplete ::
  "HttpStream \<Rightarrow> aws_error \<Rightarrow> string \<Rightarrow> aws_error" where
  "CreateMultipartUpload_onStreamComplete stream errorCode uploadId =
     checkStatus 200 stream
       (if errorCode = AWS_ERROR_SUCCESS \<and> uploadId = [] then AWS_ERROR_UNKNOWN else errorCode)"

text \<open>
  \<open>CreateMultipartUpload\<close>. The result lists the invocations of
  \<open>finishedCallback\<close>, each with its error code and upload id; it is the fault
  \<open>ReadOutOfBounds\<close> when the body callback has read beyond the memory.
\<close>

definition CreateMultipartUpload ::
  "HostResolver \<Rightarrow> S3ObjectTransport \<Rightarrow> string \<Rightarrow> RequestOutcome \<Rightarrow>
     (S3ObjectTransport \<times> HostResolver \<times> (aws_error \<times> string) list) run" where
  "CreateMultipartUpload r t key outcome =
     (let requestOptions =
            \<lparr>onIncomingHeaders = None,
             onIncomingBody = Some (\<lambda>data uploadId. (CreateMultipartUpload_onIncomingBody data uploadId, [])),
             onStreamComplete = Some (\<lambda>stream errorCode uploadId.
                (uploadId,
                 case uploadId of
                   None \<Rightarrow> []
                 | Some uploadId' \<Rightarrow>
                     [(CreateMultipartUpload_onStreamComplete stream errorCode uploadId', uploadId')]))\<rparr>
      in bind_run
           (MakeSignedRequest r t requestOptions
              (Some (\<lambda>conn errorCode. if errorCode \<noteq> AWS_ERROR_SUCCESS then [(errorCode, [])] else []))
              outcome (Some []))
           (\<lambda>(t', r', uploadId, finished).
              case uploadId of
                None \<Rightarrow> Some (Inl ReadOutOfBounds)
              | Some uploadId' \<Rightarrow> Some (Inr (t', r', finished))))"

text \<open>
  The XML body of \<open>CompleteMultipartUpload\<close>: the loop over the ETags with the index
  \<open>i\<close>, between the two opening lines and the closing tag.
\<close>

fun CompleteMultipartUpload_parts :: "string list \<Rightarrow> nat \<Rightarrow> string" where
  "CompleteMultipartUpload_parts [] i = []"
| "CompleteMultipartUpload_parts (etag # etags) i =
     ''   <Part>\<newline>'' @
     ''       <ETag>'' @ etag @ ''</ETag>\<newline>'' @
     ''       <PartNumber>'' @ decimal (i + 1) @ ''</PartNumber>\<newline>'' @
     ''   </Part>\<newline>'' @
     CompleteMultipartUpload_parts etags (Suc i)"

definition xmlDeclaration :: string where
  \<open>xmlDeclaration = ''<?xml version="1.0" encoding="UTF-8" ?>\<newline>''\<close>

definition completeOpenTag :: string where
  \<open>completeOpenTag =
     ''<CompleteMultipartUpload xmlns="http://s3.amazonaws.com/doc/2006-03-01/">\<newline>''\<close>

definition CompleteMultipartUpload_body :: "string list \<Rightarrow> string" where
  "CompleteMultipartUpload_body etags =
     xmlDeclaration @ completeOpenTag @ CompleteMultipartUpload_parts etags 0 @
     ''</CompleteMultipartUpload>''"

text \<open>
  The same body as the wire-format section of the spec writes it: the XML declaration
  and the opening tag with the S3 namespace, then for each part index \<open>i\<close> one
  \<open>Part\<close> element with \<open>etag_i\<close> and the part number \<open>i + 1\<close>, then the
  closing tag.
\<close>

definition wireFormat_Part :: "nat \<Rightarrow> string \<Rightarrow> string" where
  "wireFormat_Part i etag =
     ''   <Part>\<newline>       <ETag>'' @ etag @ ''</ETag>\<newline>       <PartNumber>'' @
     decimal (i + 1) @ ''</PartNumber>\<newline>   </Part>\<newline>''"

definition wireFormat_CompleteMultipartUpload :: "string list \<Rightarrow> string" where
  \<open>wireFormat_CompleteMultipartUpload etags =
     ''<?xml version="1.0" encoding="UTF-8" ?>\<newline><CompleteMultipartUpload xmlns="http://s3.amazonaws.com/doc/2006-03-01/">\<newline>'' @
     concat (map (\<lambda>i. wireFormat_Part i (etags ! i)) [0..<length etags]) @
     ''</CompleteMultipartUpload>''\<close>

text \<open>
  \<open>CompleteMultipartUpload\<close> and \<open>AbortMultipartUpload\<close>. The result lists the
  error codes \<open>finishedCallback\<close> was invoked with. Success is the status 200 for
  the first and 204 for the second.
\<close>

definition statusRequest ::
  "int \<Rightarrow> HostResolver \<Rightarrow> S3ObjectTransport \<Rightarrow> RequestOutcome \<Rightarrow>
     (S3ObjectTransport \<times> HostResolver \<times> aws_error list) run" where
  "statusRequest successStatus r t outcome =
     (let requestOptions =
            \<lparr>onIncomingHeaders = None,
             onIncomingBody = None,
             onStreamComplete = Some (\<lambda>stream errorCode (u::unit).
                ((), [checkStatus successStatus stream errorCode]))\<rparr>
      in bind_run
           (MakeSignedRequest r t requestOptions
              (Some (\<lambda>conn errorCode. if errorCode \<noteq> AWS_ERROR_SUCCESS then [errorCode] else []))
              outcome ())
           (\<lambda>(t', r', u, finished). Some (Inr (t', r', finished))))"

definition CompleteMultipartUpload ::
  "HostResolver \<Rightarrow> S3ObjectTransport \<Rightarrow> string \<Rightarrow> string \<Rightarrow> string list \<Rightarrow> RequestOutcome \<Rightarrow>
     (S3ObjectTransport \<times> HostResolver \<times> aws_error list) run" where
  "CompleteMultipartUpload r t key uploadId etags outcome = statusRequest 200 r t outcome"

definition AbortMultipartUpload ::
  "HostResolver \<Rightarrow> S3ObjectTransport \<Rightarrow> string \<Rightarrow> string \<Rightarrow> RequestOutcome \<Rightarrow>
     (S3ObjectTransport \<times> HostResolver \<times> aws_error list) run" where
  "AbortMultipartUpload r t key uploadId outcome = statusRequest 204 r t outcome"

subsection \<open>Reading the body of CompleteMultipartUpload as XML\<close>

text \<open>
  The receiver of the body is not part of the transport; what the wire-format section
  of the spec asks of the body is that a conformant XML parser reads the parts back
  from it. The parser given here follows XML 1.0 for the constructs such a body can
  hold: the document is a prolog and one root element; markup starts at \<open><\<close> and
  ends at the next \<open>>\<close> outside a quoted attribute value; character data is
  everything between markup, with the five predefined entity references replaced, and
  must not contain \<open>]]>\<close>; end tags must match start tags. Line ends are normalised
  before anything else. Comments, CDATA sections, document type declarations,
  character references by number and bytes outside ASCII are not covered: on a document
  that has one, and on a document that is not well-formed, the result is \<open>None\<close>.
\<close>

definition CR :: char where
  "CR = CHR 0x0D"

definition LF :: char where
  "LF = CHR 0x0A"

definition TAB :: char where
  "TAB = CHR 0x09"

text \<open>Line ends: a carriage return followed by a line feed, or alone, is a line feed.\<close>

fun normalizeLineEnds :: "string \<Rightarrow> string" where
  "normalizeLineEnds [] = []"
| "normalizeLineEnds [c] = (if c = CR then [LF] else [c])"
| "normalizeLineEnds (c # d # cs) =
     (if c = CR
      then (if d = LF then LF # normalizeLineEnds cs else LF # normalizeLineEnds (d # cs))
      else c # normalizeLineEnds (d # cs))"

text \<open>The characters of a document, as far as they are ASCII.\<close>

definition xmlChar :: "char \<Rightarrow> bool" where
  "xmlChar c = (c = TAB \<or> c = LF \<or> c = CR \<or> (32 \<le> (of_char c :: nat) \<and> (of_char c :: nat) < 128))"

definition xmlSpace :: "char \<Rightarrow> bool" where
  "xmlSpace c = (c = CHR 0x20 \<or> c = TAB \<or> c = LF \<or> c = CR)"

definition nameStartChar :: "char \<Rightarrow> bool" where
  "nameStartChar c =
     (c = CHR '':'' \<or> c = CHR ''_''
      \<or> (65 \<le> (of_char c :: nat) \<and> (of_char c :: nat) \<le> 90)
      \<or> (97 \<le> (of_char c :: nat) \<and> (of_char c :: nat) \<le> 122))"

definition nameChar :: "char \<Rightarrow> bool" where
  "nameChar c =
     (nameStartChar c \<or> c = CHR ''-'' \<or> c = CHR ''.''
      \<or> (48 \<le> (of_char c :: nat) \<and> (of_char c :: nat) \<le> 57))"

definition xmlName :: "string \<Rightarrow> bool" where
  "xmlName s = (case s of [] \<Rightarrow> False | c # cs \<Rightarrow> nameStartChar c \<and> list_all nameChar cs)"

text \<open>The predefined entities.\<close>

definition entity :: "string \<Rightarrow> char option" where
  "entity name =
     (if name = ''lt'' then Some (CHR ''<'')
      else if name = ''gt'' then Some (CHR ''>'')
      else if name = ''amp'' then Some (CHR ''&'')
      else if name = ''quot'' then Some (CHR 0x22)
      else if name = ''apos'' then Some (CHR 0x27)
      else None)"

text \<open>
  The tokens of a document: start tag (name and the text of its attributes), end tag,
  character data with the references replaced, and processing instruction, which the
  XML declaration is read as.
\<close>

datatype xmlToken =
    StartTag string string
  | EndTag string
  | CharData string
  | ProcessingInstruction string

datatype xmlMode = InText | InMarkup | InQuoted char | InReference string

text \<open>
  The state of the scanner: where it is, the character data or the markup read so far,
  and the tokens found.
\<close>

type_synonym xmlScan = "xmlMode \<times> string \<times> xmlToken list"

definition charData :: "string \<Rightarrow> xmlToken list" where
  "charData s = (if s = [] then [] else [CharData s])"

text \<open>
  The markup between \<open><\<close> and \<open>>\<close>: a processing instruction, an end tag, an
  empty-element tag, which is a start tag and an end tag, or a start tag.
\<close>

definition markup :: "string \<Rightarrow> xmlToken list option" where
  "markup s =
     (case s of
        [] \<Rightarrow> None
      | c # cs \<Rightarrow>
          if c = CHR ''?''
          then (if cs \<noteq> [] \<and> last cs = CHR ''?'' then Some [ProcessingInstruction (butlast cs)] else None)
          else if c = CHR ''!'' then None
          else if c = CHR ''/''
          then (let name = takeWhile (\<lambda>x. \<not> xmlSpace x) cs
                in if xmlName name \<and> list_all xmlSpace (dropWhile (\<lambda>x. \<not> xmlSpace x) cs)
                   then Some [EndTag name] else None)
          else (let name = takeWhile (\<lambda>x. \<not> xmlSpace x \<and> x \<noteq> CHR ''/'') s;
                    rest = dropWhile (\<lambda>x. \<not> xmlSpace x \<and> x \<noteq> CHR ''/'') s
                in if \<not> xmlName name then None
                   else if rest \<noteq> [] \<and> last rest = CHR ''/''
                   then Some [StartTag name (butlast rest), EndTag name]
                   else Some [StartTag name rest]))"

fun scanChar :: "char \<Rightarrow> xmlScan option \<Rightarrow> xmlScan option" where
  "scanChar c None = None"
| "scanChar c (Some (InText, buffer, tokens)) =
     (if c = CHR ''<'' then Some (InMarkup, [], tokens @ charData buffer)
      else if c = CHR ''&'' then Some (InReference [], buffer, tokens)
      else if c = CHR ''>''
      then (if 2 \<le> length buffer \<and> drop (length buffer - 2) buffer = '']]'' then None
            else Some (InText, buffer @ [c], tokens))
      else if xmlChar c then Some (InText, buffer @ [c], tokens)
      else None)"
| "scanChar c (Some (InReference name, buffer, tokens)) =
     (if c = CHR '';''
      then (case entity name of
              None \<Rightarrow> None
            | Some x \<Rightarrow> Some (InText, buffer @ [x], tokens))
      else Some (InReference (name @ [c]), buffer, tokens))"
| "scanChar c (Some (InMarkup, buffer, tokens)) =
     (if c = CHR ''>''
      then (case markup buffer of
              None \<Rightarrow> None
            | Some found \<Rightarrow> Some (InText, [], tokens @ found))
      else if c = CHR ''<'' then None
      else if c = CHR 0x22 \<or> c = CHR 0x27 then Some (InQuoted c, buffer @ [c], tokens)
      else if xmlChar c then Some (InMarkup, buffer @ [c], tokens)
      else None)"
| "scanChar c (Some (InQuoted q, buffer, tokens)) =
     (if c = q then Some (InMarkup, buffer @ [c], tokens)
      else if c = CHR ''<'' then None
      else if xmlChar c then Some (InQuoted q, buffer @ [c], tokens)
      else None)"

definition xmlTokens :: "string \<Rightarrow> xmlToken list option" where
  "xmlTokens document =
     (case fold scanChar (normalizeLineEnds document) (Some (InText, [], [])) of
        Some (InText, buffer, tokens) \<Rightarrow> Some (tokens @ charData buffer)
      | _ \<Rightarrow> None)"

text \<open>
  The document a token sequence stands for: elements with name, attribute text and
  children, and text. The open elements are kept on a stack, each with the children
  found so far; an end tag closes the innermost one, which must have its name. Outside
  the root element only white space and processing instructions may stand, and there is
  one root element.
\<close>

datatype xml = XmlElement string string "xml list" | XmlText string

type_synonym xmlOpen = "(string \<times> string \<times> xml list) list \<times> xml option"

fun addToken :: "xmlToken \<Rightarrow> xmlOpen option \<Rightarrow> xmlOpen option" where
  "addToken token None = None"
| "addToken (ProcessingInstruction s) (Some state) = Some state"
| "addToken (StartTag name attributes) (Some (stack, root)) =
     (if stack = [] \<and> root \<noteq> None then None
      else Some ((name, attributes, []) # stack, root))"
| "addToken (CharData s) (Some ([], root)) =
     (if list_all xmlSpace s then Some ([], root) else None)"
| "addToken (CharData s) (Some ((name, attributes, children) # stack, root)) =
     Some ((name, attributes, children @ [XmlText s]) # stack, root)"
| "addToken (EndTag name) (Some ([], root)) = None"
| "addToken (EndTag name) (Some ([(name', attributes, children)], root)) =
     (if name = name' \<and> root = None then Some ([], Some (XmlElement name' attributes children))
      else None)"
| "addToken (EndTag name) (Some ((name', attributes, children) # (name'', attributes', children') # stack, root)) =
     (if name = name'
      then Some ((name'', attributes', children' @ [XmlElement name' attributes children]) # stack, root)
      else None)"

definition parseXml :: "string \<Rightarrow> xml option" where
  "parseXml document =
     (case xmlTokens document of
        None \<Rightarrow> None
      | Some tokens \<Rightarrow>
          (case fold addToken tokens (Some ([], None)) of
             Some ([], Some root) \<Rightarrow> Some root
           | _ \<Rightarrow> None))"

text \<open>
  The parts a \<open>CompleteMultipartUpload\<close> document lists: the root element has that
  name, its children are \<open>Part\<close> elements and white space, and a \<open>Part\<close>
  element has one child named \<open>ETag\<close>, whose text is the ETag, and one named
  \<open>PartNumber\<close>, whose text is the number in decimal digits. The parts come in the
  order of the document.
\<close>

definition xmlNamed :: "string \<Rightarrow> xml \<Rightarrow> bool" where
  "xmlNamed name node = (case node of XmlElement name' attributes children \<Rightarrow> name' = name | XmlText s \<Rightarrow> False)"

fun textOf :: "xml list \<Rightarrow> string option" where
  "textOf [] = Some []"
| "textOf (XmlText s # nodes) = map_option (\<lambda>rest. s @ rest) (textOf nodes)"
| "textOf (XmlElement name attributes children # nodes) = None"

definition childText :: "string \<Rightarrow> xml list \<Rightarrow> string option" where
  "childText name nodes =
     (case filter (xmlNamed name) nodes of
        [XmlElement name' attributes children] \<Rightarrow> textOf children
      | _ \<Rightarrow> None)"

definition digitValue :: "char \<Rightarrow> nat" where
  "digitValue c = of_char c - 48"

definition isDigit :: "char \<Rightarrow> bool" where
  "isDigit c = (48 \<le> (of_char c :: nat) \<and> (of_char c :: nat) \<le> 57)"

definition nat_of_decimal :: "string \<Rightarrow> nat option" where
  "nat_of_decimal s =
     (if s \<noteq> [] \<and> list_all isDigit s then Some (fold (\<lambda>c n. 10 * n + digitValue c) s 0) else None)"

definition partOf :: "xml list \<Rightarrow> (nat \<times> string) option" where
  "partOf nodes =
     (case (childText ''PartNumber'' nodes, childText ''ETag'' nodes) of
        (Some number, Some etag) \<Rightarrow> map_option (\<lambda>n. (n, etag)) (nat_of_decimal number)
      | _ \<Rightarrow> None)"

fun partsOf :: "xml list \<Rightarrow> (nat \<times> string) list option" where
  "partsOf [] = Some []"
| "partsOf (XmlText s # nodes) = (if list_all xmlSpace s then partsOf nodes else None)"
| "partsOf (XmlElement name attributes children # nodes) =
     (if name = ''Part''
      then (case (partOf children, partsOf nodes) of
              (Some part, Some parts) \<Rightarrow> Some (part # parts)
            | _ \<Rightarrow> None)
      else None)"

definition readCompleteMultipartUpload :: "string \<Rightarrow> (nat \<times> string) list option" where
  "readCompleteMultipartUpload document =
     (case parseXml document of
        Some (XmlElement name attributes children) \<Rightarrow>
          (if name = ''CompleteMultipartUpload'' then partsOf children else None)
      | _ \<Rightarrow> None)"

text \<open>
  The ETags whose parts can be read back: those that character data can hold as they
  are. Their characters are characters of a document other than the two that start
  markup and the carriage return, and they do not contain \<open>]]>\<close>.
\<close>

definition etagChar :: "char \<Rightarrow> bool" where
  "etagChar c = (xmlChar c \<and> c \<noteq> CHR ''<'' \<and> c \<noteq> CHR ''&'' \<and> c \<noteq> CR)"

fun noCDataEnd :: "string \<Rightarrow> bool" where
  "noCDataEnd [] = True"
| "noCDataEnd (c # cs) = (take 3 (c # cs) \<noteq> '']]>'' \<and> noCDataEnd cs)"

definition etagText :: "string \<Rightarrow> bool" where
  "etagText etag = (list_all etagChar etag \<and> noCDataEnd etag)"

subsection \<open>The assembled requests\<close>

text \<open>
  Method, path, headers and body of the request each operation assembles before it
  hands it to \<open>MakeSignedRequest\<close>. The pipeline treats the request as opaque, so the
  assembly is given here and the operations above carry only the callbacks. The path
  and the values of the headers are set from C strings and end at the first NUL byte of
  the string they are taken from.
\<close>

record HttpRequest =
  Method :: string
  Path :: string
  Headers :: "HttpHeader list"
  Body :: "string option"

definition m_hostHeader :: "S3ObjectTransport \<Rightarrow> HttpHeader" where
  "m_hostHeader t = (''host'', ByteCursorFromCString (m_endpoint t))"

definition m_contentTypeHeader :: HttpHeader where
  "m_contentTypeHeader = (''content-type'', ''text/plain'')"

definition contentLengthHeader :: "string \<Rightarrow> HttpHeader" where
  "contentLengthHeader body = (''content-length'', ByteCursorFromCString (decimal (length body)))"

definition PutObject_request :: "S3ObjectTransport \<Rightarrow> string \<Rightarrow> string \<Rightarrow> HttpRequest" where
  "PutObject_request t key body =
     \<lparr>Method = ''PUT'', Path = ByteCursorFromCString (''/'' @ key),
      Headers = [contentLengthHeader body, m_hostHeader t, m_contentTypeHeader],
      Body = Some body\<rparr>"

definition GetObject_request :: "S3ObjectTransport \<Rightarrow> string \<Rightarrow> 32 word \<Rightarrow> HttpRequest" where
  "GetObject_request t key partNumber =
     \<lparr>Method = ''GET'',
      Path = ByteCursorFromCString
               (''/'' @ key @ (if partNumber > 0 then ''?partNumber='' @ decimal (unat partNumber) else [])),
      Headers = [m_hostHeader t],
      Body = None\<rparr>"

definition CreateMultipartUpload_request :: "S3ObjectTransport \<Rightarrow> string \<Rightarrow> HttpRequest" where
  "CreateMultipartUpload_request t key =
     \<lparr>Method = ''POST'', Path = ByteCursorFromCString (''/'' @ key @ ''?uploads''),
      Headers = [m_hostHeader t, m_contentTypeHeader],
      Body = None\<rparr>"

definition CompleteMultipartUpload_request ::
  "S3ObjectTransport \<Rightarrow> string \<Rightarrow> string \<Rightarrow> string list \<Rightarrow> HttpRequest" where
  "CompleteMultipartUpload_request t key uploadId etags =
     \<lparr>Method = ''POST'', Path = ByteCursorFromCString (''/'' @ key @ ''?uploadId='' @ uploadId),
      Headers = [m_hostHeader t, contentLengthHeader (CompleteMultipartUpload_body etags)],
      Body = Some (CompleteMultipartUpload_body etags)\<rparr>"

definition AbortMultipartUpload_request :: "S3ObjectTransport \<Rightarrow> string \<Rightarrow> string \<Rightarrow> HttpRequest" where
  "AbortMultipartUpload_request t key uploadId =
     \<lparr>Method = ''DELETE'', Path = ByteCursorFromCString (''/'' @ key @ ''?uploadId='' @ uploadId),
      Headers = [m_hostHeader t],
      Body = None\<rparr>"

subsection \<open>The state of a multipart upload\<close>

text \<open>
  Modelled from the spec: \<open>TransferState\<close> is declared and implemented outside the
  sources. Spec 3: it carries \<open>part_index\<close> (0-based) and \<open>part_number\<close>
  (1-based, \<open>part_index + 1\<close>).
\<close>

record TransferState =
  m_partIndex :: nat

definition GetPartIndex :: "TransferState \<Rightarrow> nat" where
  "GetPartIndex transferState = m_partIndex transferState"

definition GetPartNumber :: "TransferState \<Rightarrow> nat" where
  "GetPartNumber transferState = m_partIndex transferState + 1"

text \<open>
  Modelled from the spec: \<open>MultipartUploadState\<close> is declared and implemented outside
  the sources. Spec 3: key, object size, number of parts, the upload id set after
  CreateMultipartUpload, an ETag-by-part-index mapping whose size only grows, a counter of
  completed parts, and a terminal error that is unset until the upload is finalized and
  latched on first write.
\<close>

record MultipartUploadState =
  m_key :: string
  m_objectSize :: nat
  m_numParts :: nat
  m_uploadId :: string
  m_etags :: "string list"
  m_numPartsCompleted :: nat
  m_finishedError :: "aws_error option"

definition MultipartUploadState_new :: "string \<Rightarrow> nat \<Rightarrow> nat \<Rightarrow> MultipartUploadState" where
  "MultipartUploadState_new key objectSize numParts =
     \<lparr>m_key = key, m_objectSize = objectSize, m_numParts = numParts, m_uploadId = [],
      m_etags = [], m_numPartsCompleted = 0, m_finishedError = None\<rparr>"

definition SetUploadId :: "MultipartUploadState \<Rightarrow> string \<Rightarrow> MultipartUploadState" where
  "SetUploadId state uploadId = state\<lparr>m_uploadId := uploadId\<rparr>"

text \<open>
  Modelled from the spec: \<open>SetETag\<close> is implemented outside the sources. Spec 4.5
  step 4 stores the ETag at \<open>part_index\<close>; by spec 3 the table only grows, so a slot
  beyond the end is reached by extending the table with empty entries.
\<close>

definition SetETag :: "MultipartUploadState \<Rightarrow> nat \<Rightarrow> string \<Rightarrow> MultipartUploadState" where
  "SetETag state partIndex etag =
     state\<lparr>m_etags :=
       (m_etags state @ replicate (partIndex + 1 - length (m_etags state)) [])[partIndex := etag]\<rparr>"

definition GetETags :: "MultipartUploadState \<Rightarrow> string list" where
  "GetETags state = m_etags state"

text \<open>
  Modelled from the spec: \<open>IncNumPartsCompleted\<close> is implemented outside the sources.
  Spec 4.5 step 4 and spec 5: an atomic increment-and-test; the result says whether this
  increment made the counter reach \<open>num_parts\<close>.
\<close>

definition IncNumPartsCompleted :: "MultipartUploadState \<Rightarrow> bool \<times> MultipartUploadState" where
  "IncNumPartsCompleted state =
     (m_numPartsCompleted state + 1 = m_numParts state,
      state\<lparr>m_numPartsCompleted := m_numPartsCompleted state + 1\<rparr>)"

datatype PartFinishResponse = Done | Retry

text \<open>
  What a multipart upload does that can be observed from outside: the operations it
  calls, the response it gives the part processor for a part, and the invocations of the
  caller's \<open>finishedCallback\<close> with error code and number of parts.
\<close>

datatype UploadEvent =
    Call_CreateMultipartUpload string
  | Call_PutObject string "string option"
  | Call_CompleteMultipartUpload string string "string list"
  | Call_AbortMultipartUpload string string
  | PartFinished nat PartFinishResponse
  | Finished aws_error nat

text \<open>
  What the collaborators deliver during one upload: the outcome of the create request,
  the part attempts in the order in which they complete (part index and outcome of its
  request), and the outcomes of the complete and abort requests.
\<close>

record UploadOutcomes =
  createOutcome :: RequestOutcome
  partOutcomes :: "(nat \<times> RequestOutcome) list"
  completeOutcome :: RequestOutcome
  abortOutcome :: RequestOutcome

record UploadRun =
  transport :: S3ObjectTransport
  resolver :: HostResolver
  uploadState :: MultipartUploadState
  trace :: "UploadEvent list"
  doneParts :: "nat list"

primrec fold_run :: "('a \<Rightarrow> 'b \<Rightarrow> 'b run) \<Rightarrow> 'a list \<Rightarrow> 'b \<Rightarrow> 'b run" where
  "fold_run f [] b = Some (Inr b)"
| "fold_run f (x # xs) b = bind_run (f x b) (fold_run f xs)"

definition emit :: "UploadEvent list \<Rightarrow> UploadRun \<Rightarrow> UploadRun" where
  "emit events run = run\<lparr>trace := trace run @ events\<rparr>"

subsection \<open>The multipart upload\<close>

text \<open>
  The finished callback \<open>PutObjectMultipart\<close> installs on the upload state: on an
  error it calls \<open>AbortMultipartUpload\<close> with the upload id the state holds, and
  whatever the abort reports, the caller's callback gets the error the upload finished
  with; on success the caller's callback is invoked directly.
\<close>

definition PutObjectMultipart_finishedCallback ::
  "UploadOutcomes \<Rightarrow> aws_error \<Rightarrow> UploadRun \<Rightarrow> UploadRun run" where
  "PutObjectMultipart_finishedCallback outcomes errorCode run =
     (let key = m_key (uploadState run); numParts = m_numParts (uploadState run)
      in if errorCode \<noteq> AWS_ERROR_SUCCESS
         then
           (let uploadId = m_uploadId (uploadState run)
            in bind_run
                 (AbortMultipartUpload (resolver run) (transport run) key uploadId (abortOutcome outcomes))
                 (\<lambda>(t', r', finished).
                    Some (Inr (emit (Call_AbortMultipartUpload key uploadId #
                                       map (\<lambda>abortError. Finished errorCode numParts) finished)
                                 (run\<lparr>transport := t', resolver := r'\<rparr>)))))
         else Some (Inr (emit [Finished errorCode numParts] run)))"

text \<open>
  Modelled from the spec: \<open>SetFinished\<close> is implemented outside the sources. Spec 3
  and 4.5: the terminal error is latched on first write, and latching it triggers the
  finished callback of the state.
\<close>

definition SetFinished :: "UploadOutcomes \<Rightarrow> aws_error \<Rightarrow> UploadRun \<Rightarrow> UploadRun run" where
  "SetFinished outcomes errorCode run =
     (case m_finishedError (uploadState run) of
        Some e \<Rightarrow> Some (Inr run)
      | None \<Rightarrow>
          PutObjectMultipart_finishedCallback outcomes errorCode
            (run\<lparr>uploadState := (uploadState run)\<lparr>m_finishedError := Some errorCode\<rparr>\<rparr>))"

text \<open>
  Modelled from the spec: the \<open>partFinished\<close> callback belongs to the part processor,
  which is outside the sources. Spec 3 and 6: \<open>Done\<close> accounts for the part,
  \<open>Retry\<close> makes the processor enqueue it again.
\<close>

definition partFinished :: "TransferState \<Rightarrow> PartFinishResponse \<Rightarrow> UploadRun \<Rightarrow> UploadRun" where
  "partFinished transferState response run =
     emit [PartFinished (GetPartIndex transferState) response]
       (if response = Done then run\<lparr>doneParts := GetPartIndex transferState # doneParts run\<rparr> else run)"

text \<open>
  The callback \<open>UploadPart\<close> gives \<open>PutObject\<close>. A null ETag pointer counts as
  \<open>AWS_ERROR_UNKNOWN\<close>. On success the ETag is stored at the part index and the
  counter incremented; if the increment reached the number of parts,
  \<open>CompleteMultipartUpload\<close> is called with the ETags, its result finishing the
  state; then the part is reported \<open>Done\<close>. The complete request runs after the
  callback has returned. On an error the part is reported \<open>Retry\<close>.
\<close>

definition UploadPart_finished ::
  "UploadOutcomes \<Rightarrow> TransferState \<Rightarrow> aws_error \<times> string option \<Rightarrow> UploadRun \<Rightarrow> UploadRun run" where
  "UploadPart_finished outcomes transferState result run =
     (case result of
        (errorCode, None) \<Rightarrow> Some (Inr (partFinished transferState Retry run))
      | (errorCode, Some etag) \<Rightarrow>
          (if errorCode = AWS_ERROR_SUCCESS
           then
             (let state1 = SetETag (uploadState run) (GetPartIndex transferState) etag
              in case IncNumPartsCompleted state1 of
                   (reached, state2) \<Rightarrow>
                     (if reached
                      then
                        (let etags = GetETags state2;
                             run1 = partFinished transferState Done
                                      (emit [Call_CompleteMultipartUpload (m_key state2) (m_uploadId state2) etags]
                                         (run\<lparr>uploadState := state2\<rparr>))
                         in bind_run
                              (CompleteMultipartUpload (resolver run1) (transport run1)
                                 (m_key state2) (m_uploadId state2) etags (completeOutcome outcomes))
                              (\<lambda>(t', r', finished).
                                 fold_run (SetFinished outcomes) finished
                                   (run1\<lparr>transport := t', resolver := r'\<rparr>)))
                      else Some (Inr (partFinished transferState Done (run\<lparr>uploadState := state2\<rparr>)))))
           else Some (Inr (partFinished transferState Retry run))))"

definition UploadPart ::
  "UploadOutcomes \<Rightarrow> TransferState \<Rightarrow> string option \<Rightarrow> RequestOutcome \<Rightarrow> UploadRun \<Rightarrow> UploadRun run" where
  "UploadPart outcomes transferState partInputStream outcome run =
     (let keyPathStr = m_key (uploadState run) @ ''?partNumber='' @ decimal (GetPartNumber transferState)
                         @ ''&uploadId='' @ m_uploadId (uploadState run)
      in bind_run
           (PutObject (resolver run) (transport run) keyPathStr partInputStream RetrieveETag outcome)
           (\<lambda>(t', r', finished).
              fold_run (UploadPart_finished outcomes transferState) finished
                (emit [Call_PutObject keyPathStr partInputStream] (run\<lparr>transport := t', resolver := r'\<rparr>))))"

text \<open>
  Modelled from the spec: the part processor (\<open>MultipartTransferProcessor\<close>) is outside
  the sources. Spec 4.5 and 6: it invokes the state's \<open>process_part\<close> for the parts of
  the transfer until every part is accounted for, and on \<open>Retry\<close> enqueues the part
  again. Here it takes the part attempts in the order given and runs an attempt when its
  part belongs to the transfer and is not yet accounted for. \<open>process_part\<close> is the
  callback \<open>PutObjectMultipart\<close> installs: ask \<open>sendPart\<close> for the body, then
  \<open>UploadPart\<close>.
\<close>

fun processParts ::
  "UploadOutcomes \<Rightarrow> (TransferState \<Rightarrow> string option) \<Rightarrow> (nat \<times> RequestOutcome) list \<Rightarrow>
     UploadRun \<Rightarrow> UploadRun run" where
  "processParts outcomes sendPart [] run = Some (Inr run)"
| "processParts outcomes sendPart ((partIndex, outcome) # attempts) run =
     (if partIndex < m_numParts (uploadState run) \<and> partIndex \<notin> set (doneParts run)
      then bind_run
             (UploadPart outcomes \<lparr>m_partIndex = partIndex\<rparr> (sendPart \<lparr>m_partIndex = partIndex\<rparr>) outcome run)
             (processParts outcomes sendPart attempts)
      else processParts outcomes sendPart attempts run)"

text \<open>
  \<open>PutObjectMultipart\<close>: create the state, call \<open>CreateMultipartUpload\<close>; on an
  error finish the state with it, otherwise record the upload id and push the state into
  the upload processor.
\<close>

definition PutObjectMultipart ::
  "HostResolver \<Rightarrow> S3ObjectTransport \<Rightarrow> string \<Rightarrow> nat \<Rightarrow> nat \<Rightarrow> (TransferState \<Rightarrow> string option) \<Rightarrow>
     UploadOutcomes \<Rightarrow> UploadRun run" where
  "PutObjectMultipart r t key objectSize numParts sendPart outcomes =
     (let uploadState0 = MultipartUploadState_new key objectSize numParts
      in bind_run
           (CreateMultipartUpload r t key (createOutcome outcomes))
           (\<lambda>(t', r', finished).
              fold_run
                (\<lambda>(errorCode, uploadId) run.
                   if errorCode \<noteq> AWS_ERROR_SUCCESS
                   then SetFinished outcomes errorCode run
                   else processParts outcomes sendPart (partOutcomes outcomes)
                          (run\<lparr>uploadState := SetUploadId (uploadState run) uploadId\<rparr>))
                finished
                \<lparr>transport = t', resolver = r', uploadState = uploadState0,
                 trace = [Call_CreateMultipartUpload key], doneParts = []\<rparr>))"

definition isComplete :: "UploadEvent \<Rightarrow> bool" where
  "isComplete event = (case event of Call_CompleteMultipartUpload key uploadId etags \<Rightarrow> True | _ \<Rightarrow> False)"

definition isAbort :: "UploadEvent \<Rightarrow> bool" where
  "isAbort event = (case event of Call_AbortMultipartUpload key uploadId \<Rightarrow> True | _ \<Rightarrow> False)"

definition isFinished :: "UploadEvent \<Rightarrow> bool" where
  "isFinished event = (case event of Finished errorCode numParts \<Rightarrow> True | _ \<Rightarrow> False)"

subsection \<open>Invariants of an upload run\<close>

text \<open>
  The parts accounted for are distinct parts of the transfer, the counter of completed
  parts counts them, they are the parts reported \<open>Done\<close>, and
  \<open>CompleteMultipartUpload\<close> has been called once if they are all the parts (and
  there is one) and not at all otherwise.
\<close>

definition partsInv :: "UploadRun \<Rightarrow> bool" where
  "partsInv run =
     (distinct (doneParts run)
      \<and> list_all (\<lambda>i. i < m_numParts (uploadState run)) (doneParts run)
      \<and> m_numPartsCompleted (uploadState run) = length (doneParts run)
      \<and> (\<forall>i. (PartFinished i Done \<in> set (trace run)) = (i \<in> set (doneParts run)))
      \<and> length (filter isComplete (trace run)) =
          (if doneParts run \<noteq> [] \<and> length (doneParts run) = m_numParts (uploadState run) then 1 else 0))"

text \<open>
  The outcome of a request that is signed and gets a connection and whose stream cannot
  be created: the one outcome in which an operation does not invoke its finished
  callback.
\<close>

definition noStream :: "RequestOutcome \<Rightarrow> bool" where
  "noStream outcome =
     (signingErrorCode outcome = AWS_ERROR_SUCCESS
      \<and> checkConnection (acquiredConnection outcome) (acquireErrorCode outcome) = AWS_ERROR_SUCCESS
      \<and> clientStream outcome = None)"

text \<open>
  Before the state is finished neither the abort nor the caller's callback has been
  called. Once it is finished with an error code, the abort has been called once with
  the key and the upload id of the state if the code is an error and not at all
  otherwise, and the caller's callback has been called once, with that code and the
  number of parts, unless the abort was called and its stream could not be created: then
  the caller's callback has not been called.
\<close>

definition finishInv :: "UploadOutcomes \<Rightarrow> UploadRun \<Rightarrow> bool" where
  "finishInv outcomes run =
     (case m_finishedError (uploadState run) of
        None \<Rightarrow> filter isAbort (trace run) = [] \<and> filter isFinished (trace run) = []
      | Some errorCode \<Rightarrow>
          filter isAbort (trace run) =
            (if errorCode \<noteq> AWS_ERROR_SUCCESS
             then [Call_AbortMultipartUpload (m_key (uploadState run)) (m_uploadId (uploadState run))]
             else [])
          \<and> filter isFinished (trace run) =
              (if errorCode \<noteq> AWS_ERROR_SUCCESS \<and> noStream (abortOutcome outcomes)
               then []
               else [Finished errorCode (m_numParts (uploadState run))]))"

text \<open>
  A step that only finishes the state: it may set the terminal error and add calls of
  the abort and of the caller's callback to the trace, and leaves the parts alone.
\<close>

definition finishes :: "UploadRun \<Rightarrow> UploadRun \<Rightarrow> bool" where
  "finishes run run' =
     (doneParts run' = doneParts run
      \<and> (\<exists>finishedError. uploadState run' = (uploadState run)\<lparr>m_finishedError := finishedError\<rparr>)
      \<and> (\<exists>events. trace run' = trace run @ events \<and> list_all (\<lambda>event. isAbort event \<or> isFinished event) events))"

text \<open>
  What the scanner finds in the \<open>Part\<close> element the transport writes for an ETag
  and a part index, with the white space before it, and the nodes these tokens stand
  for.
\<close>

definition partTokens :: "nat \<Rightarrow> string \<Rightarrow> xmlToken list" where
  "partTokens i etag =
     [CharData ''\<newline>   '', StartTag ''Part'' [], CharData ''\<newline>       '', StartTag ''ETag'' []] @
     charData etag @
     [EndTag ''ETag'', CharData ''\<newline>       '', StartTag ''PartNumber'' [],
      CharData (decimal (i + 1)), EndTag ''PartNumber'', CharData ''\<newline>   '', EndTag ''Part'']"

fun partsTokens :: "string list \<Rightarrow> nat \<Rightarrow> xmlToken list" where
  "partsTokens [] i = []"
| "partsTokens (etag # etags) i = partTokens i etag @ partsTokens etags (Suc i)"

definition partNode :: "nat \<Rightarrow> string \<Rightarrow> xml" where
  "partNode i etag =
     XmlElement ''Part'' []
       [XmlText ''\<newline>       '',
        XmlElement ''ETag'' [] (if etag = [] then [] else [XmlText etag]),
        XmlText ''\<newline>       '',
        XmlElement ''PartNumber'' [] [XmlText (decimal (i + 1))],
        XmlText ''\<newline>   '']"

fun partsNodes :: "string list \<Rightarrow> nat \<Rightarrow> xml list" where
  "partsNodes [] i = []"
| "partsNodes (etag # etags) i = [XmlText ''\<newline>   '', partNode i etag] @ partsNodes etags (Suc i)"

subsection \<open>Example inputs\<close>

text \<open>
  A resolver that reports no address at the first two polls and three afterwards, and
  delivers an AAAA record first and an A record from then on; a transport without
  managers; a transport with two managers.
\<close>

definition exResolver :: HostResolver where
  "exResolver =
     \<lparr>countAnswers = (\<lambda>i. if i < 2 then 0 else 3),
      resolveAnswers = (\<lambda>i. if i = 0
         then [\<lparr>address = ''::1'', record_type = AWS_ADDRESS_RECORD_TYPE_AAAA\<rparr>]
         else [\<lparr>address = ''10.0.0.1'', record_type = AWS_ADDRESS_RECORD_TYPE_A\<rparr>]),
      countCalls = 0, resolveCalls = 0\<rparr>"

definition exTransport :: S3ObjectTransport where
  "exTransport =
     \<lparr>m_endpoint = ''b.s3.r.amazonaws.com'', sendEncrypted = True, m_addressCache = [],
      m_connManagers = [], m_connManagersUseCount = 0, m_activeRequestsCount = 0\<rparr>"

definition exFabric :: S3ObjectTransport where
  "exFabric = SpawnConnectionManagers (exTransport\<lparr>m_addressCache := [''10.0.0.1'', ''10.0.0.2'']\<rparr>)"

text \<open>
  A body chunk that is followed in memory by a NUL byte, and a body chunk that is
  followed by the given memory.
\<close>

definition exChunk :: "string \<Rightarrow> ByteCursor" where
  "exChunk bytes = \<lparr>len = length bytes, ptr = bytes @ [CHR 0x00]\<rparr>"

definition exChunkBefore :: "string \<Rightarrow> string \<Rightarrow> ByteCursor" where
  "exChunkBefore bytes behind = \<lparr>len = length bytes, ptr = bytes @ behind\<rparr>"

text \<open>
  Outcomes of one request: everything succeeds and the stream completes with the given
  status, headers and body chunks; the signer fails; the connection cannot be acquired;
  the stream cannot be created.
\<close>

definition exStream :: "int \<Rightarrow> HttpHeader list list \<Rightarrow> ByteCursor list \<Rightarrow> HttpStream" where
  "exStream status headers chunks =
     \<lparr>incomingHeaders = headers, incomingBody = chunks,
      completionErrorCode = AWS_ERROR_SUCCESS, ResponseStatusCode = status\<rparr>"

definition exCompletes :: "HttpStream \<Rightarrow> RequestOutcome" where
  "exCompletes stream =
     \<lparr>signingErrorCode = AWS_ERROR_SUCCESS,
      acquiredConnection = Some (HttpClientConnection True),
      acquireErrorCode = AWS_ERROR_SUCCESS,
      clientStream = Some stream\<rparr>"

definition exSignFails :: RequestOutcome where
  "exSignFails =
     \<lparr>signingErrorCode = AWS_ERROR_OTHER 6000, acquiredConnection = None,
      acquireErrorCode = AWS_ERROR_SUCCESS, clientStream = None\<rparr>"

definition exNoConnection :: RequestOutcome where
  "exNoConnection =
     \<lparr>signingErrorCode = AWS_ERROR_SUCCESS, acquiredConnection = None,
      acquireErrorCode = AWS_ERROR_SUCCESS, clientStream = None\<rparr>"

definition exNoStream :: RequestOutcome where
  "exNoStream =
     \<lparr>signingErrorCode = AWS_ERROR_SUCCESS,
      acquiredConnection = Some (HttpClientConnection True),
      acquireErrorCode = AWS_ERROR_SUCCESS,
      clientStream = None\<rparr>"

text \<open>
  Two different ETag lists, each entry of one carrying markup that the other has as
  structure.
\<close>

definition exETagsA :: "string list" where
  "exETagsA =
     [''X'',
      ''Y</ETag>\<newline>       <PartNumber>1</PartNumber>\<newline>   </Part>\<newline>   <Part>\<newline>       <ETag>Z'']"

definition exETagsB :: "string list" where
  "exETagsB =
     [''X</ETag>\<newline>       <PartNumber>1</PartNumber>\<newline>   </Part>\<newline>   <Part>\<newline>       <ETag>Y'',
      ''Z'']"

text \<open>
  Outcomes of the requests of an upload: a create response with the upload id U-1, a
  part response with and without an ETag header, a response that is only a status.
\<close>

definition exCreated :: RequestOutcome where
  "exCreated = exCompletes (exStream 200 [] [exChunk ''<r><UploadId>U-1</UploadId></r>''])"

definition exPart :: "string \<Rightarrow> RequestOutcome" where
  "exPart etag = exCompletes (exStream 200 [[(''Content-Length'', ''0''), (''ETag'', etag)]] [])"

definition exPartNoETag :: RequestOutcome where
  "exPartNoETag = exCompletes (exStream 200 [[(''Content-Length'', ''0''), (''etag'', ''e2'')]] [])"

definition exStatus :: "int \<Rightarrow> RequestOutcome" where
  "exStatus status = exCompletes (exStream status [] [])"

text \<open>
  An upload of two parts: the first part fails once with the status 500 and then
  succeeds, the second succeeds with a response that has no header named ETag, and the
  complete request succeeds.
\<close>

definition exUpload :: UploadOutcomes where
  "exUpload =
     \<lparr>createOutcome = exCreated,
      partOutcomes = [(0, exStatus 500), (0, exPart ''e1''), (1, exPartNoETag)],
      completeOutcome = exStatus 200,
      abortOutcome = exStatus 204\<rparr>"




definition exSendPart :: "TransferState \<Rightarrow> string option" where
  "exSendPart transferState = Some ''data''"

text \<open>
  An upload of two parts in progress: the upload id is known and the first part is
  accounted for.
\<close>

definition exRunning :: UploadRun where
  "exRunning =
     \<lparr>transport = exFabric, resolver = exResolver,
      uploadState =
        \<lparr>m_key = ''key'', m_objectSize = 10, m_numParts = 2, m_uploadId = ''U-1'',
         m_etags = [''e1''], m_numPartsCompleted = 1, m_finishedError = None\<rparr>,
      trace = [], doneParts = [0]\<rparr>"

section \<open>Properties of the connection fabric\<close>

subsection \<open>The loops of the DNS warm-up\<close>

lemma WarmDNSCache_poll_post:
  assumes "WarmDNSCache_poll r d = Some r'"
  shows "countAnswers r' = countAnswers r \<and> resolveAnswers r' = resolveAnswers r \<and>
     resolveCalls r' = resolveCalls r \<and> countCalls r < countCalls r' \<and>
     \<not> countAnswers r (countCalls r' - 1) < d"
proof -
  let ?P = "\<lambda>r d r'. countAnswers r' = countAnswers r \<and> resolveAnswers r' = resolveAnswers r \<and>
     resolveCalls r' = resolveCalls r \<and> countCalls r < countCalls r' \<and>
     \<not> countAnswers r (countCalls r' - 1) < d"
  have "?P r d r'"
  proof (rule WarmDNSCache_poll.raw_induct[where P = ?P, OF _ assms], goal_cases)
    case (1 poll r d r')
    show ?case
    proof (cases "countAnswers r (countCalls r) < d")
      case True
      with 1(2) have call: "poll (r\<lparr>countCalls := countCalls r + 1\<rparr>) d = Some r'" by simp
      from 1(1)[OF call] show ?thesis by auto
    next
      case False
      with 1(2) show ?thesis by auto
    qed
  qed
  then show ?thesis .
qed

lemma WarmDNSCache_fill_post:
  assumes "WarmDNSCache_fill r d cache = Some res"
  shows "\<not> (of_nat (length (fst res)) :: 32 word) < d \<and>
     countAnswers (snd res) = countAnswers r \<and> resolveAnswers (snd res) = resolveAnswers r \<and>
     countCalls (snd res) = countCalls r \<and> resolveCalls r \<le> resolveCalls (snd res) \<and>
     fst res = cache @ concat (map (\<lambda>i. nonAAAA (resolveAnswers r i))
                                [resolveCalls r ..< resolveCalls (snd res)])"
proof -
  let ?P = "\<lambda>r d cache res. \<not> (of_nat (length (fst res)) :: 32 word) < d \<and>
     countAnswers (snd res) = countAnswers r \<and> resolveAnswers (snd res) = resolveAnswers r \<and>
     countCalls (snd res) = countCalls r \<and> resolveCalls r \<le> resolveCalls (snd res) \<and>
     fst res = cache @ concat (map (\<lambda>i. nonAAAA (resolveAnswers r i))
                                [resolveCalls r ..< resolveCalls (snd res)])"
  have "?P r d cache res"
  proof (rule WarmDNSCache_fill.raw_induct[where P = ?P, OF _ assms], goal_cases)
    case (1 fill r d cache res)
    show ?case
    proof (cases "(of_nat (length cache) :: 32 word) < d")
      case True
      with 1(2) have call: "fill (r\<lparr>resolveCalls := resolveCalls r + 1\<rparr>) d
             (cache @ nonAAAA (resolveAnswers r (resolveCalls r))) = Some res" by simp
      from 1(1)[OF call] show ?thesis
        by (auto simp: upt_conv_Cons)
    next
      case False
      with 1(2) show ?thesis by auto
    qed
  qed
  then show ?thesis .
qed

lemma desiredNumberOfAddresses_1: "desiredNumberOfAddresses 1 = 1"
  by (simp add: desiredNumberOfAddresses_def TransfersPerAddress_def)

lemma WarmDNSCache_post:
  assumes "WarmDNSCache r t n = Some (t', r')"
  shows "\<not> (of_nat (length (m_addressCache t')) :: 32 word) < desiredNumberOfAddresses n"
    and "resolveAnswers r' = resolveAnswers r"
    and "resolveCalls r \<le> resolveCalls r'"
    and "m_addressCache t' = concat (map (\<lambda>i. nonAAAA (resolveAnswers r i))
                                       [resolveCalls r ..< resolveCalls r'])"
    and "t' = t\<lparr>m_addressCache := m_addressCache t'\<rparr>"
proof -
  from assms obtain r1 cache where
    p: "WarmDNSCache_poll r (desiredNumberOfAddresses n) = Some r1" and
    f: "WarmDNSCache_fill r1 (desiredNumberOfAddresses n) [] = Some (cache, r')" and
    t': "t' = t\<lparr>m_addressCache := cache\<rparr>"
    by (auto simp: WarmDNSCache_def split: option.splits)
  note pp = WarmDNSCache_poll_post[OF p] and fp = WarmDNSCache_fill_post[OF f]
  show "\<not> (of_nat (length (m_addressCache t')) :: 32 word) < desiredNumberOfAddresses n"
    using fp[THEN conjunct1] t' by simp
  show "resolveAnswers r' = resolveAnswers r" using pp fp by simp
  show "resolveCalls r \<le> resolveCalls r'" using pp fp by simp
  show "m_addressCache t' = concat (map (\<lambda>i. nonAAAA (resolveAnswers r i))
                                       [resolveCalls r ..< resolveCalls r'])"
    using pp fp t' by simp
  show "t' = t\<lparr>m_addressCache := m_addressCache t'\<rparr>" using t' by simp
qed

lemma WarmDNSCache_ignores_cache:
  "WarmDNSCache r (t\<lparr>m_addressCache := c\<rparr>) n = WarmDNSCache r t n"
  by (simp add: WarmDNSCache_def split: option.splits)

lemma SpawnConnectionManagers_managers:
  "m_connManagers (SpawnConnectionManagers t) =
     map (NewClientConnectionManager (PurgeConnectionManagers t)) (m_addressCache t)"
  by (simp add: SpawnConnectionManagers_def PurgeConnectionManagers_def Let_def)

lemma SpawnConnectionManagers_frame:
  "m_addressCache (SpawnConnectionManagers t) = m_addressCache t"
  "m_connManagersUseCount (SpawnConnectionManagers t) = 0"
  by (simp_all add: SpawnConnectionManagers_def PurgeConnectionManagers_def Let_def)

lemma HostName_SpawnConnectionManagers:
  "map HostName (m_connManagers (SpawnConnectionManagers t)) = m_addressCache t"
  by (simp add: SpawnConnectionManagers_managers NewClientConnectionManager_def comp_def)

subsection \<open>The index computation\<close>

lemma unat_nextIndex:
  assumes "0 < m"
  shows "unat (nextIndex u m) = (unat (u + 1) div 10) mod m"
proof -
  have a: "unat ((u + 1) div TransfersPerAddress) = unat (u + 1) div 10"
    by (simp add: TransfersPerAddress_def unat_div)
  have "unat (u + 1) div 10 mod m \<le> unat (u + 1)"
    by (meson div_le_dividend le_trans mod_less_eq_dividend)
  also have "\<dots> < 2 ^ 32" using unsigned_less[of "u + 1"] by simp
  finally have "unat (u + 1) div 10 mod m < 2 ^ LENGTH(32)" by simp
  then show ?thesis unfolding nextIndex_def a by (simp add: unat_of_nat take_bit_nat_eq_self)
qed

lemma nextIndex_in_range: "0 < m \<Longrightarrow> unat (nextIndex u m) < m"
  by (simp add: unat_nextIndex)

lemma GetNextConnManager_nonempty:
  "m_connManagers t \<noteq> [] \<Longrightarrow>
   GetNextConnManager r t =
     Some (Inr (m_connManagers t !
                  unat (nextIndex (m_connManagersUseCount t) (length (m_connManagers t))),
                t\<lparr>m_connManagersUseCount := m_connManagersUseCount t + 1\<rparr>, r))"
  by (simp add: GetNextConnManager_def)

lemma GetNextConnManager_nth_nonempty:
  "m_connManagers t \<noteq> [] \<Longrightarrow>
   GetNextConnManager_nth k r t =
     Some (Inr (m_connManagers t !
                  unat (nextIndex (m_connManagersUseCount t + of_nat k) (length (m_connManagers t))),
                t\<lparr>m_connManagersUseCount := m_connManagersUseCount t + of_nat k + 1\<rparr>, r))"
proof (induction k arbitrary: t)
  case 0
  then show ?case by (simp add: GetNextConnManager_nonempty)
next
  case (Suc k)
  let ?t' = "t\<lparr>m_connManagersUseCount := m_connManagersUseCount t + 1\<rparr>"
  have ne: "m_connManagers ?t' \<noteq> []" using Suc.prems by simp
  show ?case
    using Suc.IH[OF ne] Suc.prems
    by (simp add: GetNextConnManager_nonempty add.commute add.left_commute)
qed

lemma unat_count_plus_one:
  assumes "k + 1 < 2 ^ 32"
  shows "unat ((of_nat k :: 32 word) + 1) = k + 1"
proof -
  have "unat (of_nat (k + 1) :: 32 word) = k + 1"
    using assms by (simp add: unat_of_nat take_bit_nat_eq_self del: of_nat_add of_nat_Suc)
  then show ?thesis by (simp add: add.commute)
qed

lemma exFabric_eq:
  "exFabric = exTransport\<lparr>m_addressCache := [''10.0.0.1'', ''10.0.0.2''],
      m_connManagers := [NewClientConnectionManager exTransport ''10.0.0.1'', NewClientConnectionManager exTransport ''10.0.0.2'']\<rparr>"
  by (simp add: exFabric_def exTransport_def SpawnConnectionManagers_def PurgeConnectionManagers_def NewClientConnectionManager_def)

subsection \<open>C1: placement of successive requests\<close>

text \<open>
  Claim C1, as the code has it. With a fixed, non-empty list of \<open>m\<close> managers and the
  use count starting at 0, the \<open>k\<close>-th call of \<open>GetNextConnManager\<close> (counted
  from 0) returns \<open>managers[((k+1)/10) mod m]\<close> as long as \<open>k + 1\<close> fits the 32-bit
  counter. All calls of one window (the same \<open>(k+1)/10\<close>: the nine calls 0..8, then ten
  calls each) return the same manager, and the index of the next window is the index
  plus one modulo \<open>m\<close>.
\<close>

theorem GetNextConnManager_placement:
  assumes "m_connManagers t \<noteq> []" and "m_connManagersUseCount t = 0" and "k + 1 < 2 ^ 32"
  shows "GetNextConnManager_nth k r t =
           Some (Inr (m_connManagers t ! (((k + 1) div 10) mod length (m_connManagers t)),
                      t\<lparr>m_connManagersUseCount := of_nat (k + 1)\<rparr>, r))
       \<and> (\<forall>k'. k' + 1 < 2 ^ 32 \<and> (k' + 1) div 10 = (k + 1) div 10 \<longrightarrow>
             returnedManager (GetNextConnManager_nth k' r t) =
             returnedManager (GetNextConnManager_nth k r t))
       \<and> (\<forall>k'. k' + 1 < 2 ^ 32 \<and> (k' + 1) div 10 = (k + 1) div 10 + 1 \<longrightarrow>
             returnedManager (GetNextConnManager_nth k' r t) =
             Some (m_connManagers t !
                     ((((k + 1) div 10) mod length (m_connManagers t) + 1)
                        mod length (m_connManagers t))))"
proof -
  have formula: "GetNextConnManager_nth j r t =
           Some (Inr (m_connManagers t ! (((j + 1) div 10) mod length (m_connManagers t)),
                      t\<lparr>m_connManagersUseCount := of_nat (j + 1)\<rparr>, r))"
    if "j + 1 < 2 ^ 32" for j
  proof -
    have len: "0 < length (m_connManagers t)" using assms(1) by simp
    have "unat (nextIndex (m_connManagersUseCount t + of_nat j) (length (m_connManagers t)))
            = ((j + 1) div 10) mod length (m_connManagers t)"
      using unat_nextIndex[OF len, of "of_nat j"] unat_count_plus_one[OF that] assms(2) by simp
    then show ?thesis
      using GetNextConnManager_nth_nonempty[OF assms(1), of j r] assms(2)
      by (simp add: add.commute)
  qed
  have A: "GetNextConnManager_nth k r t =
           Some (Inr (m_connManagers t ! (((k + 1) div 10) mod length (m_connManagers t)),
                      t\<lparr>m_connManagersUseCount := of_nat (k + 1)\<rparr>, r))"
    using formula[OF assms(3)] .
  have B: "\<forall>k'. k' + 1 < 2 ^ 32 \<and> (k' + 1) div 10 = (k + 1) div 10 \<longrightarrow>
             returnedManager (GetNextConnManager_nth k' r t) =
             returnedManager (GetNextConnManager_nth k r t)"
    using formula A by (simp add: returnedManager_def)
  have C: "\<forall>k'. k' + 1 < 2 ^ 32 \<and> (k' + 1) div 10 = (k + 1) div 10 + 1 \<longrightarrow>
             returnedManager (GetNextConnManager_nth k' r t) =
             Some (m_connManagers t !
                     ((((k + 1) div 10) mod length (m_connManagers t) + 1)
                        mod length (m_connManagers t)))"
    using formula by (simp add: mod_Suc_eq returnedManager_def)
  from A B C show ?thesis by blast
qed

text \<open>The theorem at two managers: call 9 opens the second window, call 18 is still in it, call 19 is back at the first manager.\<close>

theorem GetNextConnManager_placement_witness:
  "m_connManagers exFabric \<noteq> [] \<and> m_connManagersUseCount exFabric = 0 \<and> (9::nat) + 1 < 2 ^ 32
   \<and> GetNextConnManager_nth 9 exResolver exFabric =
       Some (Inr (NewClientConnectionManager exTransport ''10.0.0.2'',
                  exFabric\<lparr>m_connManagersUseCount := 10\<rparr>, exResolver))
   \<and> returnedManager (GetNextConnManager_nth 18 exResolver exFabric) =
       Some (NewClientConnectionManager exTransport ''10.0.0.2'')
   \<and> returnedManager (GetNextConnManager_nth 19 exResolver exFabric) =
       Some (NewClientConnectionManager exTransport ''10.0.0.1'')"
proof -
  have h: "m_connManagers exFabric \<noteq> []" "m_connManagersUseCount exFabric = 0" "(9::nat) + 1 < 2 ^ 32"
    by (simp_all add: exFabric_eq exTransport_def)
  note th = GetNextConnManager_placement[OF h, of exResolver]
  have a: "GetNextConnManager_nth 9 exResolver exFabric =
       Some (Inr (NewClientConnectionManager exTransport ''10.0.0.2'',
                  exFabric\<lparr>m_connManagersUseCount := 10\<rparr>, exResolver))"
    using th[THEN conjunct1] by (simp add: exFabric_eq)
  have b: "returnedManager (GetNextConnManager_nth 18 exResolver exFabric) =
       Some (NewClientConnectionManager exTransport ''10.0.0.2'')"
    using th[THEN conjunct2, THEN conjunct1, rule_format, of 18] a by (simp add: returnedManager_def)
  have c: "returnedManager (GetNextConnManager_nth 19 exResolver exFabric) =
       Some (NewClientConnectionManager exTransport ''10.0.0.1'')"
    using th[THEN conjunct2, THEN conjunct2, rule_format, of 19] by (simp add: exFabric_eq)
  from h a b c show ?thesis by blast
qed

text \<open>
  At call \<open>k = 2^32 - 1\<close> the counter plus one wraps to 0: the call returns the first
  manager, where the formula of the claim gives the second.
\<close>

theorem GetNextConnManager_counter_wraps:
  "returnedManager (GetNextConnManager_nth 4294967295 exResolver exFabric) \<noteq>
     Some (m_connManagers exFabric !
                  (((4294967295 + 1) div 10) mod length (m_connManagers exFabric)))"
proof -
  have ne: "m_connManagers exFabric \<noteq> []" by (simp add: exFabric_eq)
  have z: "m_connManagersUseCount exFabric + (of_nat 4294967295 :: 32 word) = - 1"
    by (simp add: exFabric_eq exTransport_def)
  have "unat (nextIndex (- 1) (length (m_connManagers exFabric))) = 0"
    using unat_nextIndex[of "length (m_connManagers exFabric)" "- 1"] by (simp add: exFabric_eq)
  then have "returnedManager (GetNextConnManager_nth 4294967295 exResolver exFabric)
      = Some (NewClientConnectionManager exTransport ''10.0.0.1'')"
    using GetNextConnManager_nth_nonempty[OF ne, of 4294967295 exResolver] 
    by (simp only: z) (simp add: exFabric_eq returnedManager_def)
  moreover have "m_connManagers exFabric ! (((4294967295 + 1) div 10) mod length (m_connManagers exFabric))
      = NewClientConnectionManager exTransport ''10.0.0.2''"
  proof -
    have l: "length (m_connManagers exFabric) = 2" by (simp add: exFabric_eq)
    have i: "((4294967295 + 1) div 10) mod 2 = (1::nat)" by simp
    show ?thesis unfolding l i by (simp add: exFabric_eq)
  qed
  moreover have "NewClientConnectionManager exTransport ''10.0.0.1'' \<noteq> NewClientConnectionManager exTransport ''10.0.0.2''"
    by (simp add: NewClientConnectionManager_def)
  ultimately show ?thesis by simp
qed

subsection \<open>Lazy initialisation\<close>

lemma GetNextConnManager_empty:
  assumes "m_connManagers t = []"
  shows "GetNextConnManager r t =
     (case WarmDNSCache r t 1 of
        None \<Rightarrow> None
      | Some (t', r') \<Rightarrow>
          (if m_addressCache t' = [] then Some (Inl DivisionByZero)
           else Some (Inr (m_connManagers (SpawnConnectionManagers t') !
                             unat (nextIndex 0 (length (m_addressCache t'))),
                           (SpawnConnectionManagers t')\<lparr>m_connManagersUseCount := 1\<rparr>, r'))))"
  using assms
  by (simp add: GetNextConnManager_def SpawnConnectionManagers_managers
      SpawnConnectionManagers_frame split: option.splits)

lemma WarmDNSCache_1_nonempty:
  assumes "WarmDNSCache r t 1 = Some (t', r')"
  shows "m_addressCache t' \<noteq> []"
proof
  assume "m_addressCache t' = []"
  with WarmDNSCache_post(1)[OF assms] show False
    by (simp add: desiredNumberOfAddresses_1)
qed

lemma exWarm:
  "WarmDNSCache exResolver exTransport 1 =
     Some (exTransport\<lparr>m_addressCache := [''10.0.0.1'']\<rparr>, exResolver\<lparr>countCalls := 3, resolveCalls := 2\<rparr>)"
  by (simp add: WarmDNSCache_def WarmDNSCache_poll.simps WarmDNSCache_fill.simps exResolver_def
      exTransport_def desiredNumberOfAddresses_def TransfersPerAddress_def nonAAAA_def)

lemma exLazy_any:
  "GetNextConnManager exResolver (exTransport\<lparr>m_addressCache := c\<rparr>) =
     Some (Inr (NewClientConnectionManager exTransport ''10.0.0.1'',
       exTransport\<lparr>m_addressCache := [''10.0.0.1''],
                     m_connManagers := [NewClientConnectionManager exTransport ''10.0.0.1''],
                     m_connManagersUseCount := 1\<rparr>,
       exResolver\<lparr>countCalls := 3, resolveCalls := 2\<rparr>))"
proof -
  have e: "m_connManagers (exTransport\<lparr>m_addressCache := c\<rparr>) = []"
    by (simp add: exTransport_def)
  have n: "unat (nextIndex 0 (Suc 0)) = 0" by (simp add: nextIndex_def)
  show ?thesis
    unfolding GetNextConnManager_empty[OF e] WarmDNSCache_ignores_cache exWarm
    by (simp add: n SpawnConnectionManagers_def PurgeConnectionManagers_def
        NewClientConnectionManager_def exTransport_def)
qed

lemma exLazy:
  "GetNextConnManager exResolver (SeedAddressCache exTransport ''1.2.3.4'') =
     Some (Inr (NewClientConnectionManager exTransport ''10.0.0.1'',
       exTransport\<lparr>m_addressCache := [''10.0.0.1''],
                     m_connManagers := [NewClientConnectionManager exTransport ''10.0.0.1''],
                     m_connManagersUseCount := 1\<rparr>,
       exResolver\<lparr>countCalls := 3, resolveCalls := 2\<rparr>))"
  unfolding SeedAddressCache_def append_Nil by (rule exLazy_any)

subsection \<open>C10: the remainder is never taken by zero\<close>

text \<open>
  Claim C10. \<open>GetNextConnManager\<close> never divides by zero: with an empty manager list
  it first runs \<open>WarmDNSCache 1\<close>, which returns only with at least one address in the
  book, and \<open>SpawnConnectionManagers\<close> creates one manager per address; a call that
  returns leaves a non-empty manager list and returns one of its members.
\<close>

theorem GetNextConnManager_no_division_by_zero:
  "GetNextConnManager r t \<noteq> Some (Inl DivisionByZero)
   \<and> (\<forall>t' r'. WarmDNSCache r t 1 = Some (t', r') \<longrightarrow> 1 \<le> length (m_addressCache t'))
   \<and> length (m_connManagers (SpawnConnectionManagers t)) = length (m_addressCache t)
   \<and> (\<forall>m t' r'. GetNextConnManager r t = Some (Inr (m, t', r')) \<longrightarrow>
         1 \<le> length (m_connManagers t') \<and> m \<in> set (m_connManagers t'))"
proof -
  have warm: "1 \<le> length (m_addressCache t')" if "WarmDNSCache r t 1 = Some (t', r')" for t' r'
    using WarmDNSCache_1_nonempty[OF that] by (cases "m_addressCache t'") simp_all
  have spawn: "length (m_connManagers (SpawnConnectionManagers t)) = length (m_addressCache t)"
    by (simp add: SpawnConnectionManagers_managers)
  have nodiv: "GetNextConnManager r t \<noteq> Some (Inl DivisionByZero)"
  proof (cases "m_connManagers t = []")
    case True
    show ?thesis
      using WarmDNSCache_1_nonempty[of r t]
      by (auto simp: GetNextConnManager_empty[OF True] split: option.splits)
  next
    case False
    then show ?thesis by (simp add: GetNextConnManager_nonempty)
  qed
  have ret: "1 \<le> length (m_connManagers t') \<and> m \<in> set (m_connManagers t')"
    if g: "GetNextConnManager r t = Some (Inr (m, t', r'))" for m t' r'
  proof (cases "m_connManagers t = []")
    case True
    from g obtain t1 where w: "WarmDNSCache r t 1 = Some (t1, r')"
      and ne: "m_addressCache t1 \<noteq> []"
      and m: "m = m_connManagers (SpawnConnectionManagers t1) ! unat (nextIndex 0 (length (m_addressCache t1)))"
      and t': "t' = (SpawnConnectionManagers t1)\<lparr>m_connManagersUseCount := 1\<rparr>"
      by (auto simp: GetNextConnManager_empty[OF True] split: option.splits if_splits)
    have len: "0 < length (m_addressCache t1)" using ne by simp
    have "unat (nextIndex 0 (length (m_addressCache t1))) < length (m_connManagers (SpawnConnectionManagers t1))"
      using nextIndex_in_range[OF len] by (simp add: SpawnConnectionManagers_managers)
    then show ?thesis using m t' len by (simp add: SpawnConnectionManagers_managers del: length_greater_0_conv)
  next
    case False
    then have len: "0 < length (m_connManagers t)" by simp
    from g False have m: "m = m_connManagers t ! unat (nextIndex (m_connManagersUseCount t) (length (m_connManagers t)))"
      and t': "t' = t\<lparr>m_connManagersUseCount := m_connManagersUseCount t + 1\<rparr>"
      by (simp_all add: GetNextConnManager_nonempty)
    show ?thesis using m t' nextIndex_in_range[OF len] len by (simp del: length_greater_0_conv)
  qed
  from nodiv warm spawn ret show ?thesis by blast
qed

text \<open>The theorem at the example resolver, whose warm-up returns with one address.\<close>

theorem GetNextConnManager_no_division_by_zero_witness:
  "GetNextConnManager exResolver exTransport \<noteq> Some (Inl DivisionByZero)
   \<and> (\<exists>t' r'. WarmDNSCache exResolver exTransport 1 = Some (t', r') \<and> 1 \<le> length (m_addressCache t'))
   \<and> (\<exists>m t' r'. GetNextConnManager exResolver exTransport = Some (Inr (m, t', r')) \<and>
         1 \<le> length (m_connManagers t') \<and> m \<in> set (m_connManagers t'))"
proof -
  note th = GetNextConnManager_no_division_by_zero[of exResolver exTransport]
  have g: "GetNextConnManager exResolver exTransport =
     Some (Inr (NewClientConnectionManager exTransport ''10.0.0.1'',
       exTransport\<lparr>m_addressCache := [''10.0.0.1''],
                     m_connManagers := [NewClientConnectionManager exTransport ''10.0.0.1''],
                     m_connManagersUseCount := 1\<rparr>,
       exResolver\<lparr>countCalls := 3, resolveCalls := 2\<rparr>))"
    using exLazy_any[of "[]"] by (simp add: exTransport_def)
  show ?thesis
    using th exWarm g by blast
qed

subsection \<open>C9: lazy initialisation discards a seeded address book\<close>

text \<open>
  Claim C9, as the code has it. When the book was seeded and no manager exists, the
  first \<open>GetNextConnManager\<close> replaces the book by the non-AAAA addresses the
  resolver delivers during the warm-up and creates the managers for exactly these: the
  result is the one obtained from an empty book, whatever the seed was, and the seeded
  address is in the new book, and has a manager, exactly if the resolver itself delivers
  it during the warm-up.
\<close>

theorem GetNextConnManager_discards_seed:
  assumes "m_connManagers t = []"
    and "GetNextConnManager r (SeedAddressCache t seed) = Some (Inr (m, t', r'))"
  shows "m_addressCache t' =
           concat (map (\<lambda>i. nonAAAA (resolveAnswers r i)) [resolveCalls r ..< resolveCalls r'])
       \<and> map HostName (m_connManagers t') = m_addressCache t'
       \<and> GetNextConnManager r (SeedAddressCache t seed) = GetNextConnManager r (t\<lparr>m_addressCache := []\<rparr>)
       \<and> (seed \<in> set (m_addressCache t') \<longleftrightarrow>
            (\<exists>i. resolveCalls r \<le> i \<and> i < resolveCalls r' \<and> seed \<in> set (nonAAAA (resolveAnswers r i))))
       \<and> (seed \<in> HostName ` set (m_connManagers t') \<longleftrightarrow>
            (\<exists>i. resolveCalls r \<le> i \<and> i < resolveCalls r' \<and> seed \<in> set (nonAAAA (resolveAnswers r i))))"
proof -
  let ?s = "SeedAddressCache t seed"
  have e: "m_connManagers ?s = []" using assms(1) by (simp add: SeedAddressCache_def)
  have same: "WarmDNSCache r ?s 1 = WarmDNSCache r t 1"
    unfolding SeedAddressCache_def by (rule WarmDNSCache_ignores_cache)
  from assms(2) obtain t1 where w: "WarmDNSCache r ?s 1 = Some (t1, r')"
    and t': "t' = (SpawnConnectionManagers t1)\<lparr>m_connManagersUseCount := 1\<rparr>"
    by (auto simp: GetNextConnManager_empty[OF e] split: option.splits if_splits)
  have book: "m_addressCache t' =
           concat (map (\<lambda>i. nonAAAA (resolveAnswers r i)) [resolveCalls r ..< resolveCalls r'])"
    using WarmDNSCache_post(4)[OF w] t' by (simp add: SpawnConnectionManagers_frame)
  have mgrs: "map HostName (m_connManagers t') = m_addressCache t'"
    using t' by (simp add: HostName_SpawnConnectionManagers SpawnConnectionManagers_frame)
  have indep: "GetNextConnManager r ?s = GetNextConnManager r (t\<lparr>m_addressCache := []\<rparr>)"
  proof -
    have e0: "m_connManagers (t\<lparr>m_addressCache := []\<rparr>) = []" using assms(1) by simp
    have "?s = t\<lparr>m_addressCache := [seed]\<rparr>" by (simp add: SeedAddressCache_def)
    moreover have "t1 = t\<lparr>m_addressCache := m_addressCache t1\<rparr>"
      using WarmDNSCache_post(5)[OF w[unfolded same]] .
    ultimately show ?thesis
      unfolding GetNextConnManager_empty[OF e] GetNextConnManager_empty[OF e0]
        same WarmDNSCache_ignores_cache
      using WarmDNSCache_post(5)[of r t 1] 
      by (auto split: option.splits)
  qed
  have inbook: "seed \<in> set (m_addressCache t') \<longleftrightarrow>
            (\<exists>i. resolveCalls r \<le> i \<and> i < resolveCalls r' \<and> seed \<in> set (nonAAAA (resolveAnswers r i)))"
    unfolding book by auto
  have "HostName ` set (m_connManagers t') = set (m_addressCache t')"
    using mgrs by (metis set_map)
  then have inmgrs: "seed \<in> HostName ` set (m_connManagers t') \<longleftrightarrow>
            (\<exists>i. resolveCalls r \<le> i \<and> i < resolveCalls r' \<and> seed \<in> set (nonAAAA (resolveAnswers r i)))"
    using inbook by simp
  from book mgrs indep inbook inmgrs show ?thesis by blast
qed

text \<open>
  The theorem at the example resolver and the seed 1.2.3.4, which the resolver does not
  deliver: the book after the call does not have it.
\<close>

theorem GetNextConnManager_discards_seed_witness:
  "m_connManagers exTransport = []
   \<and> GetNextConnManager exResolver (SeedAddressCache exTransport ''1.2.3.4'') =
       Some (Inr (NewClientConnectionManager exTransport ''10.0.0.1'',
         exTransport\<lparr>m_addressCache := [''10.0.0.1''],
                       m_connManagers := [NewClientConnectionManager exTransport ''10.0.0.1''],
                       m_connManagersUseCount := 1\<rparr>,
         exResolver\<lparr>countCalls := 3, resolveCalls := 2\<rparr>))
   \<and> ''1.2.3.4'' \<notin> set (m_addressCache (exTransport\<lparr>m_addressCache := [''10.0.0.1''],
                       m_connManagers := [NewClientConnectionManager exTransport ''10.0.0.1''],
                       m_connManagersUseCount := 1\<rparr>))
   \<and> GetNextConnManager exResolver (SeedAddressCache exTransport ''1.2.3.4'') =
       GetNextConnManager exResolver (exTransport\<lparr>m_addressCache := []\<rparr>)"
proof -
  have e: "m_connManagers exTransport = []" by (simp add: exTransport_def)
  note th = GetNextConnManager_discards_seed[OF e exLazy]
  have i: "GetNextConnManager exResolver (SeedAddressCache exTransport ''1.2.3.4'') =
       GetNextConnManager exResolver (exTransport\<lparr>m_addressCache := []\<rparr>)"
    using th by blast
  have n: "''1.2.3.4'' \<notin> set (m_addressCache (exTransport\<lparr>m_addressCache := [''10.0.0.1''],
                       m_connManagers := [NewClientConnectionManager exTransport ''10.0.0.1''],
                       m_connManagersUseCount := 1\<rparr>))"
    by simp
  from e exLazy n i show ?thesis by blast
qed

text \<open>
  The claim as stated fails for a seed the resolver delivers: with the seed 10.0.0.1,
  the address of the example resolver, the book after the call holds the seeded address
  and a manager has been created for it.
\<close>

theorem GetNextConnManager_keeps_delivered_seed:
  "m_connManagers exTransport = []
   \<and> m_addressCache (SeedAddressCache exTransport ''10.0.0.1'') = [''10.0.0.1'']
   \<and> GetNextConnManager exResolver (SeedAddressCache exTransport ''10.0.0.1'') =
       Some (Inr (NewClientConnectionManager exTransport ''10.0.0.1'',
         exTransport\<lparr>m_addressCache := [''10.0.0.1''],
                       m_connManagers := [NewClientConnectionManager exTransport ''10.0.0.1''],
                       m_connManagersUseCount := 1\<rparr>,
         exResolver\<lparr>countCalls := 3, resolveCalls := 2\<rparr>))
   \<and> ''10.0.0.1'' \<in> set (m_addressCache (exTransport\<lparr>m_addressCache := [''10.0.0.1''],
                       m_connManagers := [NewClientConnectionManager exTransport ''10.0.0.1''],
                       m_connManagersUseCount := 1\<rparr>))
   \<and> ''10.0.0.1'' \<in> HostName ` set (m_connManagers (exTransport\<lparr>m_addressCache := [''10.0.0.1''],
                       m_connManagers := [NewClientConnectionManager exTransport ''10.0.0.1''],
                       m_connManagersUseCount := 1\<rparr>))"
proof -
  have e: "m_connManagers exTransport = []" by (simp add: exTransport_def)
  have s: "m_addressCache (SeedAddressCache exTransport ''10.0.0.1'') = [''10.0.0.1'']"
    by (simp add: SeedAddressCache_def)
  have g: "GetNextConnManager exResolver (SeedAddressCache exTransport ''10.0.0.1'') =
       Some (Inr (NewClientConnectionManager exTransport ''10.0.0.1'',
         exTransport\<lparr>m_addressCache := [''10.0.0.1''],
                       m_connManagers := [NewClientConnectionManager exTransport ''10.0.0.1''],
                       m_connManagersUseCount := 1\<rparr>,
         exResolver\<lparr>countCalls := 3, resolveCalls := 2\<rparr>))"
    unfolding SeedAddressCache_def append_Nil by (rule exLazy_any)
  have b: "''10.0.0.1'' \<in> set (m_addressCache (exTransport\<lparr>m_addressCache := [''10.0.0.1''],
                       m_connManagers := [NewClientConnectionManager exTransport ''10.0.0.1''],
                       m_connManagersUseCount := 1\<rparr>))"
    by simp
  have m: "''10.0.0.1'' \<in> HostName ` set (m_connManagers (exTransport\<lparr>m_addressCache := [''10.0.0.1''],
                       m_connManagers := [NewClientConnectionManager exTransport ''10.0.0.1''],
                       m_connManagersUseCount := 1\<rparr>))"
    by (simp add: NewClientConnectionManager_def)
  from e s g b m show ?thesis by (intro conjI)
qed

section \<open>Properties of the request pipeline and the object operations\<close>

subsection \<open>The pipeline, case by case\<close>

lemma bind_run_Inr:
  "bind_run x f = Some (Inr b) \<longleftrightarrow> (\<exists>a. x = Some (Inr a) \<and> f a = Some (Inr b))"
  by (auto simp: bind_run_def split: option.splits sum.splits)

lemma bind_run_Some_Inr [simp]: "bind_run (Some (Inr a)) f = f a"
  by (simp add: bind_run_def)

lemma fold_invoke_None [simp]: "fold (invoke None) xs acc = acc"
  by (induction xs arbitrary: acc) (simp_all add: invoke_def)

lemma fold_invoke_state:
  "fold (invoke (Some (\<lambda>x s. (F x s, [])))) xs (s, es) = (fold F xs s, es)"
  by (induction xs arbitrary: s) (simp_all add: invoke_def)

lemma fold_invoke_events:
  "fold (invoke (Some (\<lambda>x s. (s, [G x])))) xs (s, es) = (s, es @ map G xs)"
  by (induction xs arbitrary: es) (simp_all add: invoke_def)

lemma fold_invoke_events_unit:
  "fold (invoke (Some (\<lambda>x u. ((), [G x])))) xs ((), es) = ((), es @ map G xs)"
  by (induction xs arbitrary: es) (simp_all add: invoke_def)

lemma checkConnection_SUCCESS:
  "checkConnection conn e = AWS_ERROR_SUCCESS \<longleftrightarrow> e = AWS_ERROR_SUCCESS \<and> (\<exists>c. conn = Some c \<and> IsOpen c)"
  by (auto simp: checkConnection_def split: option.splits)

lemma MakeSignedRequest_sign_error:
  "signingErrorCode outcome \<noteq> AWS_ERROR_SUCCESS \<Longrightarrow>
   MakeSignedRequest r t opts (Some cb) outcome s = Some (Inr (t, r, s, cb None (signingErrorCode outcome)))"
  by (simp add: MakeSignedRequest_def)

lemma MakeSignedRequest_needs_manager:
  assumes "signingErrorCode outcome = AWS_ERROR_SUCCESS"
    and "MakeSignedRequest r t opts cb outcome s = Some (Inr res)"
  shows "\<exists>m t1 r1. GetNextConnManager r t = Some (Inr (m, t1, r1))"
proof -
  from assms have "bind_run (GetNextConnManager r t) (\<lambda>(connManager, t1, r1).
          (let conn = acquiredConnection outcome;
               connErrorCode = checkConnection conn (acquireErrorCode outcome)
           in bind_run
                (if connErrorCode = AWS_ERROR_SUCCESS
                 then (case conn of
                         None \<Rightarrow> Some (Inl FatalAssert)
                       | Some c \<Rightarrow>
                           MakeSignedRequest_SendRequest t1 c opts (clientStream outcome) s)
                 else Some (Inr (t1, s, [])))
                (\<lambda>(t2, s2, es).
                   Some (Inr (t2, r1, s2,
                              es @ (case cb of
                                      None \<Rightarrow> []
                                    | Some cb \<Rightarrow> cb conn connErrorCode)))))) = Some (Inr res)"
    by (simp add: MakeSignedRequest_def)
  then obtain a where "GetNextConnManager r t = Some (Inr a)"
    unfolding bind_run_Inr by blast
  then show ?thesis by (cases a) auto
qed

lemma MakeSignedRequest_acquire_error:
  assumes "signingErrorCode outcome = AWS_ERROR_SUCCESS"
    and "GetNextConnManager r t = Some (Inr (m, t1, r1))"
    and "checkConnection (acquiredConnection outcome) (acquireErrorCode outcome) \<noteq> AWS_ERROR_SUCCESS"
  shows "MakeSignedRequest r t opts (Some cb) outcome s =
           Some (Inr (t1, r1, s, cb (acquiredConnection outcome)
                                   (checkConnection (acquiredConnection outcome) (acquireErrorCode outcome))))"
  using assms by (simp add: MakeSignedRequest_def Let_def)

lemma MakeSignedRequest_no_stream:
  assumes "signingErrorCode outcome = AWS_ERROR_SUCCESS"
    and "GetNextConnManager r t = Some (Inr (m, t1, r1))"
    and "checkConnection (acquiredConnection outcome) (acquireErrorCode outcome) = AWS_ERROR_SUCCESS"
    and "clientStream outcome = None"
  shows "MakeSignedRequest r t opts (Some cb) outcome s =
           Some (Inr (t1\<lparr>m_activeRequestsCount := m_activeRequestsCount t1 + 1\<rparr>, r1, s,
                      cb (acquiredConnection outcome) AWS_ERROR_SUCCESS))"
proof -
  from assms(3) obtain c where c: "acquiredConnection outcome = Some c" "IsOpen c"
    unfolding checkConnection_SUCCESS by blast
  show ?thesis
    using assms c by (simp add: MakeSignedRequest_def Let_def MakeSignedRequest_SendRequest_def)
qed

lemma MakeSignedRequest_stream:
  assumes "signingErrorCode outcome = AWS_ERROR_SUCCESS"
    and "GetNextConnManager r t = Some (Inr (m, t1, r1))"
    and "checkConnection (acquiredConnection outcome) (acquireErrorCode outcome) = AWS_ERROR_SUCCESS"
    and "clientStream outcome = Some stream"
    and "onStreamComplete opts = Some complete"
    and "deliver opts stream s = (s1, es1)"
    and "complete stream (completionErrorCode stream) s1 = (s2, es2)"
  shows "MakeSignedRequest r t opts (Some cb) outcome s =
           Some (Inr (t1, r1, s2, es1 @ es2 @ cb (acquiredConnection outcome) AWS_ERROR_SUCCESS))"
proof -
  from assms(3) obtain c where c: "acquiredConnection outcome = Some c" "IsOpen c"
    unfolding checkConnection_SUCCESS by blast
  have send: "MakeSignedRequest_SendRequest t1 c opts (Some stream) s = Some (Inr (t1, s2, es1 @ es2))"
    using c(2) assms(5,6,7) by (simp add: MakeSignedRequest_SendRequest_def Let_def)
  show ?thesis
    using assms(1,2,3,4) c send by (simp add: MakeSignedRequest_def Let_def)
qed


lemma MakeSignedRequest_result:
  assumes run: "MakeSignedRequest r t opts (Some cb) outcome s = Some (Inr (t', r', s', calls))"
    and complete: "onStreamComplete opts = Some complete"
  shows "(s', calls) =
     (if signingErrorCode outcome \<noteq> AWS_ERROR_SUCCESS then (s, cb None (signingErrorCode outcome))
      else if checkConnection (acquiredConnection outcome) (acquireErrorCode outcome) \<noteq> AWS_ERROR_SUCCESS
      then (s, cb (acquiredConnection outcome)
                  (checkConnection (acquiredConnection outcome) (acquireErrorCode outcome)))
      else (case clientStream outcome of
              None \<Rightarrow> (s, cb (acquiredConnection outcome) AWS_ERROR_SUCCESS)
            | Some stream \<Rightarrow>
                (case deliver opts stream s of
                   (s1, es1) \<Rightarrow>
                     (case complete stream (completionErrorCode stream) s1 of
                        (s2, es2) \<Rightarrow> (s2, es1 @ es2 @ cb (acquiredConnection outcome) AWS_ERROR_SUCCESS)))))"
proof (cases "signingErrorCode outcome = AWS_ERROR_SUCCESS")
  case False
  then show ?thesis using run by (simp add: MakeSignedRequest_sign_error)
next
  case sign: True
  from MakeSignedRequest_needs_manager[OF sign run]
  obtain m t1 r1 where g: "GetNextConnManager r t = Some (Inr (m, t1, r1))" by blast
  show ?thesis
  proof (cases "checkConnection (acquiredConnection outcome) (acquireErrorCode outcome) = AWS_ERROR_SUCCESS")
    case False
    then show ?thesis
      using run sign by (simp add: MakeSignedRequest_acquire_error[OF sign g False])
  next
    case conn: True
    show ?thesis
    proof (cases "clientStream outcome")
      case None
      then show ?thesis
        using run sign conn by (simp add: MakeSignedRequest_no_stream[OF sign g conn None])
    next
      case (Some stream)
      obtain s1 es1 where d: "deliver opts stream s = (s1, es1)" by (cases "deliver opts stream s")
      obtain s2 es2 where c: "complete stream (completionErrorCode stream) s1 = (s2, es2)"
        by (cases "complete stream (completionErrorCode stream) s1")
      show ?thesis
        using run sign conn Some d c
        by (simp add: MakeSignedRequest_stream[OF sign g conn Some complete d c])
    qed
  qed
qed

lemma GetObject_calls:
  assumes "GetObject r t key partNumber outcome = Some (Inr (t', r', calls))"
  shows "calls =
     (if signingErrorCode outcome \<noteq> AWS_ERROR_SUCCESS then [GetObjectFinished (signingErrorCode outcome)]
      else if checkConnection (acquiredConnection outcome) (acquireErrorCode outcome) \<noteq> AWS_ERROR_SUCCESS
      then [GetObjectFinished (checkConnection (acquiredConnection outcome) (acquireErrorCode outcome))]
      else (case clientStream outcome of
              None \<Rightarrow> []
            | Some stream \<Rightarrow>
                map OnIncomingBody (incomingBody stream) @
                [GetObjectFinished (checkStatus (GetObject_successStatus partNumber) stream
                                      (completionErrorCode stream))]))"
proof -
  let ?opts = "\<lparr>onIncomingHeaders = None,
             onIncomingBody = Some (\<lambda>data (u::unit). ((), [OnIncomingBody data])),
             onStreamComplete = Some (\<lambda>stream error (u::unit).
                ((), [GetObjectFinished (checkStatus (GetObject_successStatus partNumber) stream error)]))\<rparr>"
  from assms obtain u where
    m: "MakeSignedRequest r t ?opts
          (Some (\<lambda>conn errorCode. if errorCode \<noteq> AWS_ERROR_SUCCESS then [GetObjectFinished errorCode] else []))
          outcome () = Some (Inr (t', r', u, calls))"
    unfolding GetObject_def Let_def bind_run_Inr by auto
  have d: "deliver ?opts stream () = ((), map OnIncomingBody (incomingBody stream))" for stream
    by (simp add: deliver_def fold_invoke_events_unit)
  show ?thesis
    using MakeSignedRequest_result[OF m] by (auto simp: d split: option.splits if_splits)
qed

subsection \<open>What each operation reports\<close>

lemma statusRequest_calls:
  assumes "statusRequest successStatus r t outcome = Some (Inr (t', r', finished))"
  shows "finished =
     (if signingErrorCode outcome \<noteq> AWS_ERROR_SUCCESS then [signingErrorCode outcome]
      else if checkConnection (acquiredConnection outcome) (acquireErrorCode outcome) \<noteq> AWS_ERROR_SUCCESS
      then [checkConnection (acquiredConnection outcome) (acquireErrorCode outcome)]
      else (case clientStream outcome of
              None \<Rightarrow> []
            | Some stream \<Rightarrow> [checkStatus successStatus stream (completionErrorCode stream)]))"
proof -
  let ?opts = "\<lparr>onIncomingHeaders = None,
             onIncomingBody = None,
             onStreamComplete = Some (\<lambda>stream errorCode (u::unit).
                ((), [checkStatus successStatus stream errorCode]))\<rparr>"
  from assms obtain u where
    m: "MakeSignedRequest r t ?opts
          (Some (\<lambda>conn errorCode. if errorCode \<noteq> AWS_ERROR_SUCCESS then [errorCode] else []))
          outcome () = Some (Inr (t', r', u, finished))"
    unfolding statusRequest_def Let_def bind_run_Inr by auto
  have d: "deliver ?opts stream () = ((), [])" for stream
    by (simp add: deliver_def)
  show ?thesis
    using MakeSignedRequest_result[OF m] by (auto simp: d split: option.splits if_splits)
qed

lemma PutObject_calls:
  assumes "PutObject r t key (Some b) flags outcome = Some (Inr (t', r', finished))"
  shows "finished =
     (if signingErrorCode outcome \<noteq> AWS_ERROR_SUCCESS then [(signingErrorCode outcome, None)]
      else if checkConnection (acquiredConnection outcome) (acquireErrorCode outcome) \<noteq> AWS_ERROR_SUCCESS
      then [(checkConnection (acquiredConnection outcome) (acquireErrorCode outcome), None)]
      else (case clientStream outcome of
              None \<Rightarrow> []
            | Some stream \<Rightarrow>
                [(checkStatus 200 stream (completionErrorCode stream),
                  fold PutObject_onIncomingHeaders (incomingHeaders stream)
                    (if (flags AND RetrieveETag) \<noteq> 0 then Some [] else None))]))"
proof -
  let ?opts = "\<lparr>onIncomingHeaders = Some (\<lambda>headersArray e. (PutObject_onIncomingHeaders headersArray e, [])),
                  onIncomingBody = None,
                  onStreamComplete = Some (\<lambda>stream errorCode e. (e, [(checkStatus 200 stream errorCode, e)]))\<rparr>"
  let ?etag = "if (flags AND RetrieveETag) \<noteq> 0 then Some [] else None"
  from assms obtain e where
    m: "MakeSignedRequest r t ?opts
          (Some (\<lambda>conn errorCode. if errorCode \<noteq> AWS_ERROR_SUCCESS then [(errorCode, None)] else []))
          outcome ?etag = Some (Inr (t', r', e, finished))"
    by (auto simp: PutObject_def Let_def bind_run_Inr)
  have d: "deliver ?opts stream s = (fold PutObject_onIncomingHeaders (incomingHeaders stream) s, [])" for stream s
    by (simp add: deliver_def fold_invoke_state)
  show ?thesis
    using MakeSignedRequest_result[OF m] by (auto simp: d split: option.splits if_splits)
qed

lemma CreateMultipartUpload_result:
  assumes "CreateMultipartUpload r t key outcome = Some (Inr (t', r', finished))"
  shows "\<exists>uploadId.
     (Some uploadId, finished) =
     (if signingErrorCode outcome \<noteq> AWS_ERROR_SUCCESS then (Some [], [(signingErrorCode outcome, [])])
      else if checkConnection (acquiredConnection outcome) (acquireErrorCode outcome) \<noteq> AWS_ERROR_SUCCESS
      then (Some [], [(checkConnection (acquiredConnection outcome) (acquireErrorCode outcome), [])])
      else (case clientStream outcome of
              None \<Rightarrow> (Some [], [])
            | Some stream \<Rightarrow>
                (fold CreateMultipartUpload_onIncomingBody (incomingBody stream) (Some []),
                 case fold CreateMultipartUpload_onIncomingBody (incomingBody stream) (Some []) of
                   None \<Rightarrow> []
                 | Some uploadId' \<Rightarrow>
                     [(CreateMultipartUpload_onStreamComplete stream (completionErrorCode stream) uploadId',
                       uploadId')])))"
proof -
  let ?opts = "\<lparr>onIncomingHeaders = None,
             onIncomingBody = Some (\<lambda>data uploadId. (CreateMultipartUpload_onIncomingBody data uploadId, [])),
             onStreamComplete = Some (\<lambda>stream errorCode uploadId.
                (uploadId,
                 case uploadId of
                   None \<Rightarrow> []
                 | Some uploadId' \<Rightarrow>
                     [(CreateMultipartUpload_onStreamComplete stream errorCode uploadId', uploadId')]))\<rparr>"
  from assms obtain u where
    m: "MakeSignedRequest r t ?opts
          (Some (\<lambda>conn errorCode. if errorCode \<noteq> AWS_ERROR_SUCCESS then [(errorCode, [])] else []))
          outcome (Some []) = Some (Inr (t', r', Some u, finished))"
    unfolding CreateMultipartUpload_def Let_def bind_run_Inr by (auto split: option.splits)
  have d: "deliver ?opts stream s = (fold CreateMultipartUpload_onIncomingBody (incomingBody stream) s, [])" for stream s
    by (simp add: deliver_def fold_invoke_state)
  show ?thesis
    using MakeSignedRequest_result[OF m] by (auto simp: d split: option.splits if_splits)
qed

lemma CreateMultipartUpload_calls:
  assumes "CreateMultipartUpload r t key outcome = Some (Inr (t', r', finished))"
  shows "finished =
     (if signingErrorCode outcome \<noteq> AWS_ERROR_SUCCESS then [(signingErrorCode outcome, [])]
      else if checkConnection (acquiredConnection outcome) (acquireErrorCode outcome) \<noteq> AWS_ERROR_SUCCESS
      then [(checkConnection (acquiredConnection outcome) (acquireErrorCode outcome), [])]
      else (case clientStream outcome of
              None \<Rightarrow> []
            | Some stream \<Rightarrow>
                (case fold CreateMultipartUpload_onIncomingBody (incomingBody stream) (Some []) of
                   None \<Rightarrow> []
                 | Some uploadId \<Rightarrow>
                     [(CreateMultipartUpload_onStreamComplete stream (completionErrorCode stream) uploadId,
                       uploadId)])))"
  using CreateMultipartUpload_result[OF assms] by (auto split: if_splits option.splits)


lemma checkStatus_SUCCESS:
  "checkStatus status stream AWS_ERROR_SUCCESS =
     (if ResponseStatusCode stream = status then AWS_ERROR_SUCCESS else AWS_ERROR_UNKNOWN)"
  by (simp add: checkStatus_def)


subsection \<open>Evaluation at the example fabric\<close>

lemma exFabric_next:
  "GetNextConnManager r exFabric =
     Some (Inr (NewClientConnectionManager exTransport ''10.0.0.1'',
                exFabric\<lparr>m_connManagersUseCount := 1\<rparr>, r))"
proof -
  have ne: "m_connManagers exFabric \<noteq> []" by (simp add: exFabric_eq)
  have n: "unat (nextIndex 0 (Suc (Suc 0))) = 0"
    using unat_nextIndex[of "Suc (Suc 0)" 0] by simp
  show ?thesis
    unfolding GetNextConnManager_nonempty[OF ne]
    by (simp add: exFabric_eq exTransport_def n)
qed

lemma exCompletes_simps [simp]:
  "signingErrorCode (exCompletes stream) = AWS_ERROR_SUCCESS"
  "checkConnection (acquiredConnection (exCompletes stream)) (acquireErrorCode (exCompletes stream)) = AWS_ERROR_SUCCESS"
  "clientStream (exCompletes stream) = Some stream"
  by (simp_all add: exCompletes_def checkConnection_def)

lemma exNoStream_simps [simp]:
  "signingErrorCode exNoStream = AWS_ERROR_SUCCESS"
  "checkConnection (acquiredConnection exNoStream) (acquireErrorCode exNoStream) = AWS_ERROR_SUCCESS"
  "clientStream exNoStream = None"
  by (simp_all add: exNoStream_def checkConnection_def)

lemma MakeSignedRequest_eval:
  assumes g: "GetNextConnManager r t = Some (Inr (m, t1, r1))"
    and complete: "onStreamComplete opts = Some complete"
  shows "MakeSignedRequest r t opts (Some cb) outcome s =
     Some (Inr
       (if signingErrorCode outcome \<noteq> AWS_ERROR_SUCCESS
        then (t, r, s, cb None (signingErrorCode outcome))
        else if checkConnection (acquiredConnection outcome) (acquireErrorCode outcome) \<noteq> AWS_ERROR_SUCCESS
        then (t1, r1, s, cb (acquiredConnection outcome)
                           (checkConnection (acquiredConnection outcome) (acquireErrorCode outcome)))
        else (case clientStream outcome of
                None \<Rightarrow> (t1\<lparr>m_activeRequestsCount := m_activeRequestsCount t1 + 1\<rparr>, r1, s,
                         cb (acquiredConnection outcome) AWS_ERROR_SUCCESS)
              | Some stream \<Rightarrow>
                  (t1, r1,
                   fst (complete stream (completionErrorCode stream) (fst (deliver opts stream s))),
                   snd (deliver opts stream s) @
                   snd (complete stream (completionErrorCode stream) (fst (deliver opts stream s))) @
                   cb (acquiredConnection outcome) AWS_ERROR_SUCCESS))))"
proof (cases "signingErrorCode outcome = AWS_ERROR_SUCCESS")
  case False
  then show ?thesis by (simp add: MakeSignedRequest_sign_error)
next
  case sign: True
  show ?thesis
  proof (cases "checkConnection (acquiredConnection outcome) (acquireErrorCode outcome) = AWS_ERROR_SUCCESS")
    case False
    then show ?thesis
      using sign by (simp add: MakeSignedRequest_acquire_error[OF sign g False])
  next
    case conn: True
    show ?thesis
    proof (cases "clientStream outcome")
      case None
      then show ?thesis
        using sign conn by (simp add: MakeSignedRequest_no_stream[OF sign g conn None])
    next
      case (Some stream)
      have d: "deliver opts stream s = (fst (deliver opts stream s), snd (deliver opts stream s))"
        by simp
      have c: "complete stream (completionErrorCode stream) (fst (deliver opts stream s)) =
                 (fst (complete stream (completionErrorCode stream) (fst (deliver opts stream s))),
                  snd (complete stream (completionErrorCode stream) (fst (deliver opts stream s))))"
        by simp
      show ?thesis
        using sign conn Some
        by (simp add: MakeSignedRequest_stream[OF sign g conn Some complete d c])
    qed
  qed
qed

lemma exGetObject:
  "GetObject exResolver exFabric ''key'' 3 (exCompletes (exStream 206 [] [exChunk ''xyz''])) =
     Some (Inr (exFabric\<lparr>m_connManagersUseCount := 1\<rparr>, exResolver,
                [OnIncomingBody (exChunk ''xyz''), GetObjectFinished AWS_ERROR_SUCCESS]))"
  unfolding GetObject_def Let_def
  by (simp add: MakeSignedRequest_eval[OF exFabric_next] deliver_def invoke_def exStream_def
      checkStatus_def GetObject_successStatus_def S3GetObjectResponseStatus_PartialContent_def)


subsection \<open>C6: the status GetObject expects\<close>

text \<open>
  Claim C6. When a \<open>GetObject\<close> stream completes without transport error, the
  body chunks are forwarded and \<open>getObjectFinished\<close> is invoked once, with
  \<open>AWS_ERROR_SUCCESS\<close> when the status is the expected one (206 for a part number
  above 0, 200 for the part number 0) and with \<open>AWS_ERROR_UNKNOWN\<close> otherwise.
\<close>

theorem GetObject_expected_status:
  assumes "GetObject r t key partNumber outcome = Some (Inr (t', r', calls))"
    and "signingErrorCode outcome = AWS_ERROR_SUCCESS"
    and "checkConnection (acquiredConnection outcome) (acquireErrorCode outcome) = AWS_ERROR_SUCCESS"
    and "clientStream outcome = Some stream"
    and "completionErrorCode stream = AWS_ERROR_SUCCESS"
  shows "calls = map OnIncomingBody (incomingBody stream) @
           [GetObjectFinished
              (if ResponseStatusCode stream = (if partNumber > 0 then 206 else 200)
               then AWS_ERROR_SUCCESS else AWS_ERROR_UNKNOWN)]"
  using GetObject_calls[OF assms(1)] assms(2-5)
  by (simp add: checkStatus_SUCCESS GetObject_successStatus_def
      S3GetObjectResponseStatus_PartialContent_def)

text \<open>The theorem at part 3 and a 206 response with the body xyz in one chunk.\<close>

theorem GetObject_expected_status_witness:
  "GetObject exResolver exFabric ''key'' 3 (exCompletes (exStream 206 [] [exChunk ''xyz''])) =
     Some (Inr (exFabric\<lparr>m_connManagersUseCount := 1\<rparr>, exResolver,
                [OnIncomingBody (exChunk ''xyz''), GetObjectFinished AWS_ERROR_SUCCESS]))
   \<and> signingErrorCode (exCompletes (exStream 206 [] [exChunk ''xyz''])) = AWS_ERROR_SUCCESS
   \<and> checkConnection (acquiredConnection (exCompletes (exStream 206 [] [exChunk ''xyz''])))
        (acquireErrorCode (exCompletes (exStream 206 [] [exChunk ''xyz'']))) = AWS_ERROR_SUCCESS
   \<and> clientStream (exCompletes (exStream 206 [] [exChunk ''xyz''])) = Some (exStream 206 [] [exChunk ''xyz''])
   \<and> completionErrorCode (exStream 206 [] [exChunk ''xyz'']) = AWS_ERROR_SUCCESS
   \<and> [OnIncomingBody (exChunk ''xyz''), GetObjectFinished AWS_ERROR_SUCCESS] =
       map OnIncomingBody (incomingBody (exStream 206 [] [exChunk ''xyz''])) @
         [GetObjectFinished
            (if ResponseStatusCode (exStream 206 [] [exChunk ''xyz'']) = (if (3::32 word) > 0 then 206 else 200)
             then AWS_ERROR_SUCCESS else AWS_ERROR_UNKNOWN)]"
proof -
  have c: "completionErrorCode (exStream 206 [] [exChunk ''xyz'']) = AWS_ERROR_SUCCESS"
    by (simp add: exStream_def)
  note th = GetObject_expected_status[OF exGetObject exCompletes_simps c]
  show ?thesis using exGetObject c th by simp
qed

subsection \<open>C4: a stream that cannot be created\<close>

text \<open>
  Claim C4 fails where \<open>NewClientStream\<close> returns null: the request was signed and
  the connection acquired, \<open>MakeSignedRequest_SendRequest\<close> logs the failure, the
  acquisition callback is called without error, and the finished callback of the
  operation is never invoked; the count of active requests stays incremented. The
  theorem evaluates the five operations at such an outcome.
\<close>

theorem no_stream_no_finished_callback:
  "PutObject exResolver exFabric ''key'' (Some ''data'') RetrieveETag exNoStream =
     Some (Inr (exFabric\<lparr>m_connManagersUseCount := 1, m_activeRequestsCount := 1\<rparr>, exResolver, []))
   \<and> GetObject exResolver exFabric ''key'' 0 exNoStream =
     Some (Inr (exFabric\<lparr>m_connManagersUseCount := 1, m_activeRequestsCount := 1\<rparr>, exResolver, []))
   \<and> CreateMultipartUpload exResolver exFabric ''key'' exNoStream =
     Some (Inr (exFabric\<lparr>m_connManagersUseCount := 1, m_activeRequestsCount := 1\<rparr>, exResolver, []))
   \<and> CompleteMultipartUpload exResolver exFabric ''key'' ''U-1'' [''e1''] exNoStream =
     Some (Inr (exFabric\<lparr>m_connManagersUseCount := 1, m_activeRequestsCount := 1\<rparr>, exResolver, []))
   \<and> AbortMultipartUpload exResolver exFabric ''key'' ''U-1'' exNoStream =
     Some (Inr (exFabric\<lparr>m_connManagersUseCount := 1, m_activeRequestsCount := 1\<rparr>, exResolver, []))"
proof -
  have a: "m_activeRequestsCount exFabric = 0" by (simp add: exFabric_eq exTransport_def)
  show ?thesis
    unfolding PutObject_def GetObject_def CreateMultipartUpload_def CompleteMultipartUpload_def
      AbortMultipartUpload_def statusRequest_def Let_def
    by (simp add: MakeSignedRequest_eval[OF exFabric_next] a)
qed

section \<open>Properties of CreateMultipartUpload\<close>

subsection \<open>Searching a string\<close>

lemma find_at_Some:
  assumes "find_at p s i = Some k"
  shows "i \<le> k \<and> (k - i) + length p \<le> length s \<and> take (length p) (drop (k - i) s) = p
         \<and> (\<forall>j < k - i. take (length p) (drop j s) \<noteq> p)"
  using assms
proof (induction s arbitrary: i)
  case Nil
  then show ?case by (simp split: if_splits)
next
  case (Cons c cs)
  show ?case
  proof (cases "take (length p) (c # cs) = p")
    case True
    with Cons.prems have "k = i" by simp
    moreover have "length p \<le> length (c # cs)"
    proof -
      have "length (take (length p) (c # cs)) = length p" using True by simp
      then show ?thesis by (simp add: min_def split: if_splits)
    qed
    ultimately show ?thesis using True by simp
  next
    case False
    with Cons.prems have r: "find_at p cs (Suc i) = Some k" by simp
    from Cons.IH[OF r] have ih: "Suc i \<le> k" "(k - Suc i) + length p \<le> length cs"
      "take (length p) (drop (k - Suc i) cs) = p"
      "\<forall>j < k - Suc i. take (length p) (drop j cs) \<noteq> p" by auto
    have k: "k - i = Suc (k - Suc i)" using ih(1) by simp
    have "\<forall>j < k - i. take (length p) (drop j (c # cs)) \<noteq> p"
    proof (intro allI impI)
      fix j assume "j < k - i"
      show "take (length p) (drop j (c # cs)) \<noteq> p"
      proof (cases j)
        case 0
        then show ?thesis using False by simp
      next
        case (Suc j')
        then have "j' < k - Suc i" using \<open>j < k - i\<close> k by simp
        then show ?thesis using ih(4) Suc by simp
      qed
    qed
    then show ?thesis using ih k by simp
  qed
qed

lemma find_at_None:
  assumes "find_at p s i = None"
  shows "\<forall>j \<le> length s. take (length p) (drop j s) \<noteq> p"
  using assms
proof (induction s arbitrary: i)
  case Nil
  then show ?case by (auto split: if_splits)
next
  case (Cons c cs)
  from Cons.prems have ne: "take (length p) (c # cs) \<noteq> p" and r: "find_at p cs (Suc i) = None"
    by (auto split: if_splits)
  show ?case
  proof (intro allI impI)
    fix j assume "j \<le> length (c # cs)"
    show "take (length p) (drop j (c # cs)) \<noteq> p"
    proof (cases j)
      case 0
      then show ?thesis using ne by simp
    next
      case (Suc j')
      then show ?thesis using Cons.IH[OF r] \<open>j \<le> length (c # cs)\<close> by simp
    qed
  qed
qed

text \<open>\<open>string_find\<close> returns the first occurrence from the position on.\<close>

lemma string_find_Some:
  assumes "string_find s p pos = Some k"
  shows "pos \<le> k" and "k + length p \<le> length s" and "take (length p) (drop k s) = p"
    and "\<forall>j. pos \<le> j \<and> j < k \<longrightarrow> take (length p) (drop j s) \<noteq> p"
proof -
  from assms have le: "pos \<le> length s" and f: "find_at p (drop pos s) pos = Some k"
    by (auto simp: string_find_def split: if_splits)
  note fs = find_at_Some[OF f]
  show "pos \<le> k" using fs by simp
  have a: "(k - pos) + length p \<le> length (drop pos s)" and b: "pos \<le> k" using fs by blast+
  have "length (drop pos s) = length s - pos" by simp
  with a b le show "k + length p \<le> length s" by linarith
  have t: "take (length p) (drop (k - pos) (drop pos s)) = p" using fs by blast
  have e: "k - pos + pos = k" using b by simp
  show "take (length p) (drop k s) = p" using t unfolding drop_drop e .
  show "\<forall>j. pos \<le> j \<and> j < k \<longrightarrow> take (length p) (drop j s) \<noteq> p"
  proof (intro allI impI)
    fix j assume j: "pos \<le> j \<and> j < k"
    then have lt: "j - pos < k - pos" and ej: "j - pos + pos = j" by arith+
    from fs lt have "take (length p) (drop (j - pos) (drop pos s)) \<noteq> p" by blast
    then show "take (length p) (drop j s) \<noteq> p" unfolding drop_drop ej .
  qed
qed

lemma occurrence_nth:
  assumes "take (length p) (drop k s) = p" and "d < length p"
  shows "s ! (k + d) = p ! d"
proof -
  have "k + length p \<le> length s"
  proof -
    have "length (take (length p) (drop k s)) = length p" using assms(1) by simp
    then have "min (length s - k) (length p) = length p" by simp
    then show ?thesis using assms(2) by (simp add: min_def split: if_splits)
  qed
  then have "p ! d = drop k s ! d" using assms by (metis nth_take)
  also have "\<dots> = s ! (k + d)" using \<open>k + length p \<le> length s\<close> assms(2) by simp
  finally show ?thesis by simp
qed

text \<open>The closing tag cannot start inside the opening tag: the length never wraps.\<close>

lemma close_after_open:
  assumes o: "string_find s uploadIdOpenTag 0 = Some i"
    and c: "string_find s uploadIdCloseTag i = Some j"
  shows "i + length uploadIdOpenTag \<le> j"
proof (rule ccontr)
  assume "\<not> i + length uploadIdOpenTag \<le> j"
  moreover have "i \<le> j" using string_find_Some(1)[OF c] .
  ultimately have "j = i + (j - i)" "j - i < 10"
    by (simp_all add: uploadIdOpenTag_def)
  then obtain d where d: "j = i + d" "d < 10" by blast
  have op: "s ! (i + e) = uploadIdOpenTag ! e" if "e < 10" for e
    using occurrence_nth[OF string_find_Some(3)[OF o], of e] that by (simp add: uploadIdOpenTag_def)
  have cl: "s ! (j + e) = uploadIdCloseTag ! e" if "e < 11" for e
    using occurrence_nth[OF string_find_Some(3)[OF c], of e] that by (simp add: uploadIdCloseTag_def)
  have c0: "s ! (i + d) = CHR ''<''" using cl[of 0] d by (simp add: uploadIdCloseTag_def)
  have c1: "s ! (i + d + 1) = CHR ''/''" using cl[of 1] d by (simp add: uploadIdCloseTag_def)
  show False
  proof (cases "d = 0")
    case True
    then show ?thesis using op[of 1] c1 by (simp add: uploadIdOpenTag_def)
  next
    case False
    then have "d - 1 < length (tl uploadIdOpenTag)" using d(2) by (simp add: uploadIdOpenTag_def)
    then have "tl uploadIdOpenTag ! (d - 1) \<in> set (tl uploadIdOpenTag)" by (rule nth_mem)
    moreover have "tl uploadIdOpenTag ! (d - 1) = uploadIdOpenTag ! d"
      using False d(2) by (simp add: uploadIdOpenTag_def nth_Cons')
    ultimately have "s ! (i + d) \<in> set (tl uploadIdOpenTag)" using op[OF d(2)] by simp
    then show ?thesis using c0 by (simp add: uploadIdOpenTag_def)
  qed
qed

subsection \<open>The text a chunk is read as\<close>

lemma String_of_ptr_Some:
  "String_of_ptr memory = Some s \<longleftrightarrow>
     CHR 0x00 \<in> set memory \<and> s = takeWhile (\<lambda>c. c \<noteq> CHR 0x00) memory"
  by (auto simp: String_of_ptr_def)

lemma String_of_ptr_None: "String_of_ptr memory = None \<longleftrightarrow> CHR 0x00 \<notin> set memory"
  by (simp add: String_of_ptr_def)

lemma String_of_ptr_terminated:
  assumes "CHR 0x00 \<notin> set bytes"
  shows "String_of_ptr (bytes @ CHR 0x00 # behind) = Some bytes"
proof -
  have "takeWhile (\<lambda>c. c \<noteq> CHR 0x00) (bytes @ CHR 0x00 # behind) = bytes"
    using assms by (induction bytes) auto
  then show ?thesis by (simp add: String_of_ptr_def)
qed


lemma exChunk_text:
  "CHR 0x00 \<notin> set bytes \<Longrightarrow> String_of_ptr (ptr (exChunk bytes)) = Some bytes"
  "CHR 0x00 \<notin> set bytes \<Longrightarrow>
     String_of_ptr (ptr (exChunkBefore bytes (behind @ [CHR 0x00]))) =
       String_of_ptr ((bytes @ behind) @ [CHR 0x00])"
  by (simp_all add: exChunk_def exChunkBefore_def String_of_ptr_terminated)

subsection \<open>The upload id a chunk yields\<close>

lemma CreateMultipartUpload_onIncomingBody_first_pair:
  assumes "String_of_ptr (ptr data) = Some dataString"
  shows "CreateMultipartUpload_onIncomingBody data (Some uploadId) =
     Some (case string_find dataString uploadIdOpenTag 0 of
        None \<Rightarrow> uploadId
      | Some i \<Rightarrow>
          (case string_find dataString uploadIdCloseTag i of
             None \<Rightarrow> uploadId
           | Some j \<Rightarrow> take (j - (i + 10)) (drop (i + 10) dataString)))"
proof (cases "string_find dataString uploadIdOpenTag 0")
  case None
  then show ?thesis using assms by (simp add: CreateMultipartUpload_onIncomingBody_def)
next
  case (Some i)
  show ?thesis
  proof (cases "string_find dataString uploadIdCloseTag i")
    case None
    then show ?thesis using Some assms by (simp add: CreateMultipartUpload_onIncomingBody_def)
  next
    case (Some j)
    have "i + length uploadIdOpenTag \<le> j"
      using close_after_open[OF \<open>string_find dataString uploadIdOpenTag 0 = Some i\<close> Some] .
    moreover have len: "length uploadIdOpenTag = 10" by (simp add: uploadIdOpenTag_def)
    ultimately have "size_t_sub j (i + length uploadIdOpenTag) = j - (i + 10)"
      by (simp add: size_t_sub_def)
    then show ?thesis
      using Some \<open>string_find dataString uploadIdOpenTag 0 = Some i\<close> assms
      by (simp add: CreateMultipartUpload_onIncomingBody_def string_substr_def Let_def len)
  qed
qed

lemma CreateMultipartUpload_onIncomingBody_None [simp]:
  "CreateMultipartUpload_onIncomingBody data None = None"
  by (simp add: CreateMultipartUpload_onIncomingBody_def)

lemma CreateMultipartUpload_onIncomingBody_unreadable:
  "String_of_ptr (ptr data) = None \<Longrightarrow> CreateMultipartUpload_onIncomingBody data uploadId = None"
  by (simp add: CreateMultipartUpload_onIncomingBody_def split: option.splits)



lemma exCreate:
  "CreateMultipartUpload exResolver exFabric ''key'' (exCompletes (exStream status [] chunks)) =
     (case fold CreateMultipartUpload_onIncomingBody chunks (Some []) of
        None \<Rightarrow> Some (Inl ReadOutOfBounds)
      | Some uploadId \<Rightarrow>
          Some (Inr (exFabric\<lparr>m_connManagersUseCount := 1\<rparr>, exResolver,
            [(CreateMultipartUpload_onStreamComplete (exStream status [] chunks) AWS_ERROR_SUCCESS uploadId,
              uploadId)])))"
  unfolding CreateMultipartUpload_def Let_def
  by (simp add: MakeSignedRequest_eval[OF exFabric_next] deliver_def fold_invoke_state exStream_def
      split: option.splits)

lemma ex_find_open:
  "string_find ''<foo><UploadId>U-42</UploadId></foo>'' ''<UploadId>'' 0 = Some 5"
  by (simp add: string_find_def)

lemma ex_find_close:
  "string_find ''<foo><UploadId>U-42</UploadId></foo>'' ''</UploadId>'' 5 = Some 19"
  by (simp add: string_find_def)



lemma ex_scan_split_2:
  "CreateMultipartUpload_onIncomingBody (exChunk ''42</UploadId></foo>'') (Some uploadId) = Some uploadId"
proof -
  have "String_of_ptr (ptr (exChunk ''42</UploadId></foo>'')) = Some ''42</UploadId></foo>''"
    by (rule exChunk_text) simp
  from CreateMultipartUpload_onIncomingBody_first_pair[OF this, of uploadId]
  show ?thesis
    by (simp add: uploadIdOpenTag_def uploadIdCloseTag_def string_find_def)
qed

lemma ex_scan_adjacent:
  "CreateMultipartUpload_onIncomingBody
     (exChunkBefore ''<foo><UploadId>U-'' (''42</UploadId></foo>'' @ [CHR 0x00])) (Some uploadId) =
     Some ''U-42''"
proof -
  have "String_of_ptr (ptr (exChunkBefore ''<foo><UploadId>U-'' (''42</UploadId></foo>'' @ [CHR 0x00]))) =
          String_of_ptr (''<foo><UploadId>U-42</UploadId></foo>'' @ [CHR 0x00])"
    by (simp add: exChunkBefore_def)
  also have "\<dots> = Some ''<foo><UploadId>U-42</UploadId></foo>''"
    by (rule String_of_ptr_terminated) simp
  finally have "String_of_ptr (ptr (exChunkBefore ''<foo><UploadId>U-'' (''42</UploadId></foo>'' @ [CHR 0x00]))) =
          Some ''<foo><UploadId>U-42</UploadId></foo>''" .
  from CreateMultipartUpload_onIncomingBody_first_pair[OF this, of uploadId]
  show ?thesis
    unfolding uploadIdOpenTag_def uploadIdCloseTag_def ex_find_open option.case ex_find_close
    by simp
qed

lemma ex_scan_stale:
  "CreateMultipartUpload_onIncomingBody
     (exChunkBefore ''<Error/>'' (''<UploadId>stale</UploadId>'' @ [CHR 0x00])) (Some uploadId) =
     Some ''stale''"
proof -
  have "String_of_ptr (ptr (exChunkBefore ''<Error/>'' (''<UploadId>stale</UploadId>'' @ [CHR 0x00]))) =
          String_of_ptr (''<Error/><UploadId>stale</UploadId>'' @ [CHR 0x00])"
    by (simp add: exChunkBefore_def)
  also have "\<dots> = Some ''<Error/><UploadId>stale</UploadId>''"
    by (rule String_of_ptr_terminated) simp
  finally have "String_of_ptr (ptr (exChunkBefore ''<Error/>'' (''<UploadId>stale</UploadId>'' @ [CHR 0x00]))) =
          Some ''<Error/><UploadId>stale</UploadId>''" .
  from CreateMultipartUpload_onIncomingBody_first_pair[OF this, of uploadId]
  show ?thesis
    by (simp add: uploadIdOpenTag_def uploadIdCloseTag_def string_find_def)
qed

subsection \<open>C5: what CreateMultipartUpload reports\<close>




text \<open>
  What is scanned depends on the memory behind the chunk. When the two chunks of the
  split body lie one behind the other in one buffer, the string at the first chunk runs
  on into the second and the id is found. When the memory behind a chunk without an id
  holds a pair, its id is reported with success. When the memory has no NUL byte, the
  read leaves it.
\<close>

lemma CreateMultipartUpload_split_body_adjacent:
  "CreateMultipartUpload exResolver exFabric ''key''
       (exCompletes (exStream 200 []
          [exChunkBefore ''<foo><UploadId>U-'' (''42</UploadId></foo>'' @ [CHR 0x00]),
           exChunk ''42</UploadId></foo>''])) =
     Some (Inr (exFabric\<lparr>m_connManagersUseCount := 1\<rparr>, exResolver, [(AWS_ERROR_SUCCESS, ''U-42'')]))"
  unfolding exCreate fold.simps o_apply id_apply ex_scan_adjacent ex_scan_split_2 option.case
  by (simp add: CreateMultipartUpload_onStreamComplete_def checkStatus_def exStream_def)

lemma CreateMultipartUpload_stale_memory:
  "CreateMultipartUpload exResolver exFabric ''key''
       (exCompletes (exStream 200 []
          [exChunkBefore ''<Error/>'' (''<UploadId>stale</UploadId>'' @ [CHR 0x00])])) =
     Some (Inr (exFabric\<lparr>m_connManagersUseCount := 1\<rparr>, exResolver, [(AWS_ERROR_SUCCESS, ''stale'')]))"
  unfolding exCreate fold.simps o_apply id_apply ex_scan_stale option.case
  by (simp add: CreateMultipartUpload_onStreamComplete_def checkStatus_def exStream_def)

lemma CreateMultipartUpload_unterminated:
  "CreateMultipartUpload exResolver exFabric ''key''
       (exCompletes (exStream 200 [] [exChunkBefore ''<r/>'' []])) = Some (Inl ReadOutOfBounds)"
  by (subst exCreate)
     (simp add: CreateMultipartUpload_onIncomingBody_unreadable String_of_ptr_def exChunkBefore_def)

section \<open>Properties of the CompleteMultipartUpload body\<close>

lemma decimal_small: "n < 10 \<Longrightarrow> decimal n = [digit n]"
  by (simp add: decimal.simps)

lemma decimal_digits:
  "decimal (Suc 0) = ''1''" "decimal (Suc (Suc 0)) = ''2''" "decimal (Suc (Suc (Suc 0))) = ''3''"
  by (simp_all add: decimal_small digit_def)

lemma CompleteMultipartUpload_parts_wireFormat:
  "CompleteMultipartUpload_parts etags i =
     concat (map (\<lambda>k. wireFormat_Part (i + k) (etags ! k)) [0..<length etags])"
proof (induction etags arbitrary: i)
  case Nil
  then show ?case by simp
next
  case (Cons etag etags)
  have "[0..<length (etag # etags)] = 0 # map Suc [0..<length etags]"
    by (simp add: upt_conv_Cons map_Suc_upt del: upt_Suc)
  then show ?case
    by (simp add: Cons.IH wireFormat_Part_def comp_def)
qed

lemma eq_up_to_char:
  assumes "c \<notin> set xs" and "c \<notin> set ys" and "xs @ c # r1 = ys @ c # r2"
  shows "xs = ys \<and> r1 = r2"
proof -
  have "takeWhile (\<lambda>x. x \<noteq> c) (xs @ c # r1) = xs"
    using assms(1) by (auto simp: takeWhile_tail takeWhile_eq_all_conv)
  moreover have "takeWhile (\<lambda>x. x \<noteq> c) (ys @ c # r2) = ys"
    using assms(2) by (auto simp: takeWhile_tail takeWhile_eq_all_conv)
  ultimately have "xs = ys" using assms(3) by simp
  then show ?thesis using assms(3) by simp
qed

lemma CompleteMultipartUpload_parts_inj:
  assumes "\<forall>e \<in> set xs. CHR ''<'' \<notin> set e" and "\<forall>e \<in> set ys. CHR ''<'' \<notin> set e"
    and "CompleteMultipartUpload_parts xs i @ ''</CompleteMultipartUpload>'' =
         CompleteMultipartUpload_parts ys i @ ''</CompleteMultipartUpload>''"
  shows "xs = ys"
  using assms
proof (induction xs arbitrary: ys i)
  case Nil
  then show ?case by (cases ys) simp_all
next
  case (Cons x xs)
  show ?case
  proof (cases ys)
    case Nil
    with Cons.prems(3) show ?thesis by simp
  next
    case (Cons y ys')
    let ?r1 = "''/ETag>\<newline>       <PartNumber>'' @ decimal (i + 1) @ ''</PartNumber>\<newline>   </Part>\<newline>'' @
               CompleteMultipartUpload_parts xs (Suc i) @ ''</CompleteMultipartUpload>''"
    let ?r2 = "''/ETag>\<newline>       <PartNumber>'' @ decimal (i + 1) @ ''</PartNumber>\<newline>   </Part>\<newline>'' @
               CompleteMultipartUpload_parts ys' (Suc i) @ ''</CompleteMultipartUpload>''"
    from Cons.prems(3) Cons have eq: "x @ CHR ''<'' # ?r1 = y @ CHR ''<'' # ?r2" by simp
    have nx: "CHR ''<'' \<notin> set x" and ny: "CHR ''<'' \<notin> set y"
      using Cons.prems(1,2) Cons by simp_all
    from eq_up_to_char[OF nx ny eq] have xy: "x = y" and r: "?r1 = ?r2" by simp_all
    from r have "CompleteMultipartUpload_parts xs (Suc i) @ ''</CompleteMultipartUpload>'' =
                 CompleteMultipartUpload_parts ys' (Suc i) @ ''</CompleteMultipartUpload>''"
      by simp
    moreover have "\<forall>e \<in> set xs. CHR ''<'' \<notin> set e" "\<forall>e \<in> set ys'. CHR ''<'' \<notin> set e"
      using Cons.prems(1,2) Cons by simp_all
    ultimately have "xs = ys'" using Cons.IH by blast
    with xy Cons show ?thesis by simp
  qed
qed

subsection \<open>Scanning the body\<close>

lemmas scan_eval =
  charData_def markup_def xmlName_def nameStartChar_def nameChar_def xmlSpace_def xmlChar_def
  Let_def CR_def LF_def TAB_def

lemma noCDataEnd_append: "noCDataEnd (xs @ ys) \<Longrightarrow> noCDataEnd ys"
  by (induction xs) simp_all

lemma noCDataEnd_end: "\<not> noCDataEnd (xs @ '']]>'' @ ys)"
proof
  assume "noCDataEnd (xs @ '']]>'' @ ys)"
  then have "noCDataEnd ('']]>'' @ ys)" by (rule noCDataEnd_append)
  then show False by simp
qed

lemma noCDataEnd_no_gt: "CHR ''>'' \<notin> set s \<Longrightarrow> noCDataEnd s"
proof (induction s)
  case Nil
  then show ?case by simp
next
  case (Cons c s)
  have "take 3 (c # s) \<noteq> '']]>''"
  proof
    assume "take 3 (c # s) = '']]>''"
    then have "CHR ''>'' \<in> set (take 3 (c # s))" by simp
    then have "CHR ''>'' \<in> set (c # s)" by (rule in_set_takeD)
    with Cons.prems show False by simp
  qed
  with Cons show ?case by simp
qed

lemma etagChar_scan:
  assumes "etagChar c" and "noCDataEnd (buffer @ c # rest)"
  shows "scanChar c (Some (InText, buffer, tokens)) = Some (InText, buffer @ [c], tokens)"
proof (cases "c = CHR ''>''")
  case False
  then show ?thesis using assms(1) by (simp add: etagChar_def)
next
  case True
  have "\<not> (2 \<le> length buffer \<and> drop (length buffer - 2) buffer = '']]'')"
  proof
    assume a: "2 \<le> length buffer \<and> drop (length buffer - 2) buffer = '']]''"
    have "buffer = take (length buffer - 2) buffer @ drop (length buffer - 2) buffer" by simp
    with a have "buffer = take (length buffer - 2) buffer @ '']]''" by simp
    then have "buffer @ c # rest = take (length buffer - 2) buffer @ '']]>'' @ rest"
      using True by (metis append.assoc append_Cons append_Nil)
    with assms(2) noCDataEnd_end show False by metis
  qed
  then show ?thesis using True by simp
qed

lemma fold_scan_etag:
  assumes "list_all etagChar e" and "noCDataEnd (buffer @ e)"
  shows "fold scanChar e (Some (InText, buffer, tokens)) = Some (InText, buffer @ e, tokens)"
  using assms
proof (induction e arbitrary: buffer)
  case Nil
  then show ?case by simp
next
  case (Cons c e)
  then have c: "etagChar c" and e: "list_all etagChar e" by simp_all
  have n: "noCDataEnd ((buffer @ [c]) @ e)" using Cons.prems(2) by simp
  have "fold scanChar (c # e) (Some (InText, buffer, tokens)) =
        fold scanChar e (scanChar c (Some (InText, buffer, tokens)))"
    by (simp only: fold_simps)
  also have "\<dots> = fold scanChar e (Some (InText, buffer @ [c], tokens))"
    by (simp only: etagChar_scan[OF c Cons.prems(2)])
  also have "\<dots> = Some (InText, (buffer @ [c]) @ e, tokens)" by (rule Cons.IH[OF e n])
  finally show ?case by simp
qed

lemma fold_scan_etagText:
  "etagText e \<Longrightarrow> fold scanChar e (Some (InText, [], tokens)) = Some (InText, e, tokens)"
  using fold_scan_etag[of e "[]" tokens] by (simp add: etagText_def)

lemma etagChar_digit: "d < 10 \<Longrightarrow> etagChar (digit d)"
proof -
  assume "d < 10"
  then have "d \<in> {0, 1, 2, 3, 4, 5, 6, 7, 8, 9}" by auto
  then show ?thesis
    by (auto simp: digit_def etagChar_def xmlChar_def CR_def)
qed

lemma digit_no_gt: "d < 10 \<Longrightarrow> digit d \<noteq> CHR ''>''"
proof -
  assume "d < 10"
  then have "d \<in> {0, 1, 2, 3, 4, 5, 6, 7, 8, 9}" by auto
  then show ?thesis by (auto simp: digit_def)
qed

lemma etagChar_decimal: "list_all (\<lambda>c. etagChar c \<and> c \<noteq> CHR ''>'') (decimal n)"
proof (induction n rule: decimal.induct)
  case (1 n)
  show ?case
  proof (cases "n < 10")
    case True
    then show ?thesis by (simp add: decimal.simps[of n] etagChar_digit digit_no_gt)
  next
    case False
    then have "list_all (\<lambda>c. etagChar c \<and> c \<noteq> CHR ''>'') (decimal (n div 10))" by (rule 1)
    then show ?thesis using False by (simp add: decimal.simps[of n] etagChar_digit digit_no_gt)
  qed
qed

lemma etagText_decimal: "etagText (decimal n)"
proof -
  have "list_all etagChar (decimal n)" "CHR ''>'' \<notin> set (decimal n)"
    using etagChar_decimal[of n] by (auto simp: list_all_iff)
  then show ?thesis using noCDataEnd_no_gt by (simp add: etagText_def)
qed

lemma decimal_nonempty: "decimal n \<noteq> []"
  by (simp add: decimal.simps[of n])

lemma scan_head:
  \<open>fold scanChar (xmlDeclaration @ completeOpenTag) (Some (InText, [], [])) =
     Some (InText, ''\<newline>'',
       [ProcessingInstruction ''xml version="1.0" encoding="UTF-8" '',
        CharData ''\<newline>'',
        StartTag ''CompleteMultipartUpload'' '' xmlns="http://s3.amazonaws.com/doc/2006-03-01/"''])\<close>
  by (simp add: xmlDeclaration_def completeOpenTag_def scan_eval)

lemma scan_part_open:
  "fold scanChar ''   <Part>\<newline>       <ETag>'' (Some (InText, ''\<newline>'', tokens)) =
     Some (InText, [], tokens @ [CharData ''\<newline>   '', StartTag ''Part'' [],
                                 CharData ''\<newline>       '', StartTag ''ETag'' []])"
  by (simp add: scan_eval)

lemma scan_etag_close:
  "fold scanChar ''</ETag>\<newline>       <PartNumber>'' (Some (InText, etag, tokens)) =
     Some (InText, [], tokens @ charData etag @
                       [EndTag ''ETag'', CharData ''\<newline>       '', StartTag ''PartNumber'' []])"
  by (simp add: markup_def xmlName_def nameStartChar_def nameChar_def xmlSpace_def xmlChar_def
      Let_def CR_def LF_def TAB_def) (simp add: charData_def)

lemma scan_part_close:
  "number \<noteq> [] \<Longrightarrow>
   fold scanChar ''</PartNumber>\<newline>   </Part>\<newline>'' (Some (InText, number, tokens)) =
     Some (InText, ''\<newline>'', tokens @
             [CharData number, EndTag ''PartNumber'', CharData ''\<newline>   '', EndTag ''Part''])"
  by (simp add: scan_eval)

lemma scan_tail:
  "fold scanChar ''</CompleteMultipartUpload>'' (Some (InText, ''\<newline>'', tokens)) =
     Some (InText, [], tokens @ [CharData ''\<newline>'', EndTag ''CompleteMultipartUpload''])"
  by (simp add: scan_eval)

lemma scan_part:
  assumes "etagText etag"
  shows "fold scanChar
           (''   <Part>\<newline>'' @ ''       <ETag>'' @ etag @ ''</ETag>\<newline>'' @
            ''       <PartNumber>'' @ decimal (i + 1) @ ''</PartNumber>\<newline>'' @ ''   </Part>\<newline>'')
           (Some (InText, ''\<newline>'', tokens)) =
         Some (InText, ''\<newline>'', tokens @ partTokens i etag)"
proof -
  have split: "''   <Part>\<newline>'' @ ''       <ETag>'' @ etag @ ''</ETag>\<newline>'' @
            ''       <PartNumber>'' @ decimal (i + 1) @ ''</PartNumber>\<newline>'' @ ''   </Part>\<newline>'' =
        ''   <Part>\<newline>       <ETag>'' @ etag @ ''</ETag>\<newline>       <PartNumber>'' @
        decimal (i + 1) @ ''</PartNumber>\<newline>   </Part>\<newline>''"
    by simp
  show ?thesis
    unfolding split fold_append o_apply scan_part_open fold_scan_etagText[OF assms]
      scan_etag_close fold_scan_etagText[OF etagText_decimal] scan_part_close[OF decimal_nonempty]
    by (simp add: partTokens_def)
qed

lemma scan_parts:
  assumes "list_all etagText etags"
  shows "fold scanChar (CompleteMultipartUpload_parts etags i) (Some (InText, ''\<newline>'', tokens)) =
         Some (InText, ''\<newline>'', tokens @ partsTokens etags i)"
  using assms
proof (induction etags arbitrary: i tokens)
  case Nil
  then show ?case by simp
next
  case (Cons etag etags)
  then have e: "etagText etag" and es: "list_all etagText etags" by simp_all
  let ?block = "''   <Part>\<newline>'' @ ''       <ETag>'' @ etag @ ''</ETag>\<newline>'' @
         ''       <PartNumber>'' @ decimal (i + 1) @ ''</PartNumber>\<newline>'' @ ''   </Part>\<newline>''"
  have p: "CompleteMultipartUpload_parts (etag # etags) i =
        ?block @ CompleteMultipartUpload_parts etags (Suc i)"
    by simp
  have "fold scanChar (CompleteMultipartUpload_parts (etag # etags) i) (Some (InText, ''\<newline>'', tokens)) =
        fold scanChar (CompleteMultipartUpload_parts etags (Suc i))
          (fold scanChar ?block (Some (InText, ''\<newline>'', tokens)))"
    unfolding p by (simp only: fold_append o_apply)
  also have "\<dots> = fold scanChar (CompleteMultipartUpload_parts etags (Suc i))
                      (Some (InText, ''\<newline>'', tokens @ partTokens i etag))"
    by (simp only: scan_part[OF e])
  also have "\<dots> = Some (InText, ''\<newline>'', (tokens @ partTokens i etag) @ partsTokens etags (Suc i))"
    by (rule Cons.IH[OF es])
  finally show ?case by simp
qed

lemma no_CR_etag: "etagText e \<Longrightarrow> CR \<notin> set e"
  by (auto simp: list_all_iff etagChar_def etagText_def)

lemma no_CR_parts:
  "list_all etagText etags \<Longrightarrow> CR \<notin> set (CompleteMultipartUpload_parts etags i)"
proof (induction etags arbitrary: i)
  case Nil
  then show ?case by simp
next
  case (Cons etag etags)
  then have "CR \<notin> set etag" "CR \<notin> set (CompleteMultipartUpload_parts etags (Suc i))"
    using no_CR_etag by simp_all
  moreover have "CR \<notin> set (decimal (i + 1))" using no_CR_etag[OF etagText_decimal] .
  ultimately show ?case by (simp add: CR_def)
qed

lemma normalizeLineEnds_id: "CR \<notin> set s \<Longrightarrow> normalizeLineEnds s = s"
  by (induction s rule: normalizeLineEnds.induct) auto

lemma no_CR_body:
  assumes "list_all etagText etags"
  shows "CR \<notin> set (CompleteMultipartUpload_body etags)"
  using no_CR_parts[OF assms, of 0]
  by (simp add: CompleteMultipartUpload_body_def xmlDeclaration_def completeOpenTag_def CR_def)

lemma xmlTokens_body:
  assumes "list_all etagText etags"
  shows \<open>xmlTokens (CompleteMultipartUpload_body etags) =
     Some ([ProcessingInstruction ''xml version="1.0" encoding="UTF-8" '',
            CharData ''\<newline>'',
            StartTag ''CompleteMultipartUpload'' '' xmlns="http://s3.amazonaws.com/doc/2006-03-01/"''] @
           partsTokens etags 0 @
           [CharData ''\<newline>'', EndTag ''CompleteMultipartUpload''])\<close>
proof -
  let ?head = "xmlDeclaration @ completeOpenTag"
  let ?parts = "CompleteMultipartUpload_parts etags 0"
  have b: "CompleteMultipartUpload_body etags = ?head @ ?parts @ ''</CompleteMultipartUpload>''"
    by (simp add: CompleteMultipartUpload_body_def)
  have "fold scanChar (CompleteMultipartUpload_body etags) (Some (InText, [], [])) =
        fold scanChar ''</CompleteMultipartUpload>''
          (fold scanChar ?parts (fold scanChar ?head (Some (InText, [], []))))"
    unfolding b by (simp only: fold_append o_apply)
  also have \<open>\<dots> = Some (InText, [],
           ([ProcessingInstruction ''xml version="1.0" encoding="UTF-8" '',
            CharData ''\<newline>'',
            StartTag ''CompleteMultipartUpload'' '' xmlns="http://s3.amazonaws.com/doc/2006-03-01/"''] @
           partsTokens etags 0) @
           [CharData ''\<newline>'', EndTag ''CompleteMultipartUpload''])\<close>
    by (simp only: scan_head scan_parts[OF assms] scan_tail)
  finally show ?thesis
    unfolding xmlTokens_def normalizeLineEnds_id[OF no_CR_body[OF assms]]
    by (simp add: charData_def)
qed

subsection \<open>The document the tokens stand for\<close>

lemma add_partTokens:
  "fold addToken (partTokens i etag) (Some ((name, attributes, children) # stack, root)) =
     Some ((name, attributes, children @ [XmlText ''\<newline>   '', partNode i etag]) # stack, root)"
  by (simp add: partTokens_def partNode_def charData_def)

lemma add_partsTokens:
  "fold addToken (partsTokens etags i) (Some ((name, attributes, children) # stack, root)) =
     Some ((name, attributes, children @ partsNodes etags i) # stack, root)"
proof (induction etags arbitrary: i children)
  case Nil
  then show ?case by simp
next
  case (Cons etag etags)
  have "fold addToken (partsTokens (etag # etags) i) (Some ((name, attributes, children) # stack, root)) =
        fold addToken (partsTokens etags (Suc i))
          (fold addToken (partTokens i etag) (Some ((name, attributes, children) # stack, root)))"
    by (simp only: partsTokens.simps fold_append o_apply)
  also have "\<dots> = Some ((name, attributes,
                      (children @ [XmlText ''\<newline>   '', partNode i etag]) @ partsNodes etags (Suc i)) # stack, root)"
    unfolding add_partTokens by (rule Cons.IH)
  finally show ?case by simp
qed

lemma parseXml_body:
  assumes "list_all etagText etags"
  shows \<open>parseXml (CompleteMultipartUpload_body etags) =
     Some (XmlElement ''CompleteMultipartUpload'' '' xmlns="http://s3.amazonaws.com/doc/2006-03-01/"''
             (partsNodes etags 0 @ [XmlText ''\<newline>'']))\<close>
proof -
  let ?head = \<open>[ProcessingInstruction ''xml version="1.0" encoding="UTF-8" '',
            CharData ''\<newline>'',
            StartTag ''CompleteMultipartUpload'' '' xmlns="http://s3.amazonaws.com/doc/2006-03-01/"'']\<close>
  let ?tail = "[CharData ''\<newline>'', EndTag ''CompleteMultipartUpload'']"
  have h: \<open>fold addToken ?head (Some ([], None)) =
           Some ([(''CompleteMultipartUpload'', '' xmlns="http://s3.amazonaws.com/doc/2006-03-01/"'', [])], None)\<close>
    by (simp add: xmlSpace_def LF_def)
  have \<open>fold addToken (?head @ partsTokens etags 0 @ ?tail) (Some ([], None)) =
        fold addToken ?tail (fold addToken (partsTokens etags 0) (fold addToken ?head (Some ([], None))))\<close>
    by (simp only: fold_append o_apply)
  also have \<open>\<dots> = fold addToken ?tail
      (Some ([(''CompleteMultipartUpload'', '' xmlns="http://s3.amazonaws.com/doc/2006-03-01/"'',
               [] @ partsNodes etags 0)], None))\<close>
    by (simp only: h add_partsTokens)
  also have \<open>\<dots> = Some ([], Some (XmlElement ''CompleteMultipartUpload''
                 '' xmlns="http://s3.amazonaws.com/doc/2006-03-01/"''
                 (partsNodes etags 0 @ [XmlText ''\<newline>''])))\<close>
    by simp
  finally show ?thesis
    unfolding parseXml_def xmlTokens_body[OF assms] by simp
qed

subsection \<open>The parts of the document\<close>

lemma digitValue_digit: "d < 10 \<Longrightarrow> digitValue (digit d) = d \<and> isDigit (digit d)"
proof -
  assume "d < 10"
  then have "d \<in> {0, 1, 2, 3, 4, 5, 6, 7, 8, 9}" by auto
  then show ?thesis
    by (auto simp: digit_def digitValue_def isDigit_def)
qed

lemma decimal_value:
  "list_all isDigit (decimal n) \<and> fold (\<lambda>c n. 10 * n + digitValue c) (decimal n) 0 = n"
proof (induction n rule: decimal.induct)
  case (1 n)
  show ?case
  proof (cases "n < 10")
    case True
    then show ?thesis by (simp add: decimal.simps[of n] digitValue_digit)
  next
    case False
    then have ih: "list_all isDigit (decimal (n div 10))"
      "fold (\<lambda>c n. 10 * n + digitValue c) (decimal (n div 10)) 0 = n div 10"
      using 1 by simp_all
    have d: "n mod 10 < 10" by simp
    show ?thesis
      using False ih digitValue_digit[OF d] by (simp add: decimal.simps[of n])
  qed
qed

lemma nat_of_decimal_decimal: "nat_of_decimal (decimal n) = Some n"
  using decimal_value[of n] by (simp add: nat_of_decimal_def decimal_nonempty)

lemma partOf_partNode:
  "partOf [XmlText ''\<newline>       '',
           XmlElement ''ETag'' [] (if etag = [] then [] else [XmlText etag]),
           XmlText ''\<newline>       '',
           XmlElement ''PartNumber'' [] [XmlText (decimal (Suc i))],
           XmlText ''\<newline>   ''] = Some (Suc i, etag)"
  by (simp add: partOf_def childText_def xmlNamed_def nat_of_decimal_decimal)

lemma partsOf_partNode:
  "partsOf ([XmlText ''\<newline>   '', partNode i etag] @ nodes) =
     (case partsOf nodes of None \<Rightarrow> None | Some parts \<Rightarrow> Some ((Suc i, etag) # parts))"
proof -
  have ws: "list_all xmlSpace ''\<newline>   ''" by (simp add: xmlSpace_def LF_def)
  have "partsOf ([XmlText ''\<newline>   '', partNode i etag] @ nodes) = partsOf (partNode i etag # nodes)"
    unfolding append_Cons append_Nil partsOf.simps using ws by (simp only: if_True)
  also have "\<dots> = (case partsOf nodes of None \<Rightarrow> None | Some parts \<Rightarrow> Some ((Suc i, etag) # parts))"
    unfolding partNode_def partsOf.simps Suc_eq_plus1[symmetric] partOf_partNode by simp
  finally show ?thesis .
qed

lemma partsOf_partsNodes:
  "partsOf (partsNodes etags i @ [XmlText ''\<newline>'']) =
     Some (map (\<lambda>k. (i + k + 1, etags ! k)) [0..<length etags])"
proof (induction etags arbitrary: i)
  case Nil
  then show ?case by (simp add: xmlSpace_def LF_def)
next
  case (Cons etag etags)
  have "[0..<length (etag # etags)] = 0 # map Suc [0..<length etags]"
    by (simp add: upt_conv_Cons map_Suc_upt del: upt_Suc)
  then have m: "map (\<lambda>k. (i + k + 1, (etag # etags) ! k)) [0..<length (etag # etags)] =
        (Suc i, etag) # map (\<lambda>k. (Suc i + k + 1, etags ! k)) [0..<length etags]"
    by (simp add: comp_def)
  have "partsOf (partsNodes (etag # etags) i @ [XmlText ''\<newline>'']) =
        partsOf ([XmlText ''\<newline>   '', partNode i etag] @ (partsNodes etags (Suc i) @ [XmlText ''\<newline>'']))"
    by simp
  also have "\<dots> = Some ((Suc i, etag) # map (\<lambda>k. (Suc i + k + 1, etags ! k)) [0..<length etags])"
    unfolding partsOf_partNode Cons.IH by simp
  finally show ?case unfolding m .
qed

lemma readCompleteMultipartUpload_body:
  assumes "list_all etagText etags"
  shows "readCompleteMultipartUpload (CompleteMultipartUpload_body etags) =
           Some (map (\<lambda>i. (i + 1, etags ! i)) [0..<length etags])"
  unfolding readCompleteMultipartUpload_def parseXml_body[OF assms]
  using partsOf_partsNodes[of etags 0] by simp

subsection \<open>ETags with markup characters\<close>

text \<open>
  An ETag that holds an entity reference is read back as the character it refers to, an
  ETag with a bare ampersand or with \<open>]]>\<close> makes the body a document that is not
  well-formed, and a carriage return in an ETag is read back as a line feed. A
  \<open>>\<close> elsewhere is read back as it is.
\<close>

lemmas read_eval =
  readCompleteMultipartUpload_def parseXml_def xmlTokens_def CompleteMultipartUpload_body_def
  xmlDeclaration_def completeOpenTag_def decimal_digits scan_eval entity_def
  partOf_def childText_def xmlNamed_def nat_of_decimal_def isDigit_def digitValue_def

lemma read_entity:
  "readCompleteMultipartUpload (CompleteMultipartUpload_body [''&lt;'']) = Some [(1, ''<'')]"
  by (simp add: read_eval)

lemma read_ampersand:
  "readCompleteMultipartUpload (CompleteMultipartUpload_body [''a&b'']) = None"
  by (simp add: read_eval)

lemma read_carriage_return:
  "readCompleteMultipartUpload (CompleteMultipartUpload_body [[CHR ''a'', CHR 0x0D]]) =
     Some [(1, [CHR ''a'', CHR 0x0A])]"
  by (simp add: read_eval)

lemma read_cdata_end:
  "readCompleteMultipartUpload (CompleteMultipartUpload_body [''a]]>b'']) = None"
  by (simp add: read_eval)

lemma read_greater_than:
  "readCompleteMultipartUpload (CompleteMultipartUpload_body [''a>b'']) = Some [(1, ''a>b'')]"
  by (simp add: read_eval)

lemma read_collision:
  "readCompleteMultipartUpload (CompleteMultipartUpload_body exETagsA) =
     Some [(1, ''X''), (1, ''Y''), (2, ''Z'')]"
  by (simp add: read_eval exETagsA_def)

subsection \<open>C7: the body against the wire format\<close>

text \<open>
  Claim C7, as the code has it. For every list of ETags the assembled body is the
  template of the wire-format section: one \<open>Part\<close> element per ETag in part-index
  order, the element of index \<open>i\<close> carrying the part number \<open>i + 1\<close>. The ETags
  are written verbatim, without escaping. When they are texts that character data can
  hold as they are (characters of a document other than \<open><\<close>, \<open>&\<close> and the
  carriage return, and no \<open>]]>\<close>), the XML parser reads from the body exactly the
  pairs \<open>(i + 1, etag_i)\<close>, in this order.
\<close>

theorem CompleteMultipartUpload_body_wireFormat:
  "CompleteMultipartUpload_body etags = wireFormat_CompleteMultipartUpload etags
   \<and> ((\<forall>etag \<in> set etags. etagText etag) \<longrightarrow>
        readCompleteMultipartUpload (CompleteMultipartUpload_body etags) =
          Some (map (\<lambda>i. (i + 1, etags ! i)) [0..<length etags]))"
proof -
  have a: "CompleteMultipartUpload_body etags = wireFormat_CompleteMultipartUpload etags"
    by (simp add: CompleteMultipartUpload_body_def wireFormat_CompleteMultipartUpload_def
        CompleteMultipartUpload_parts_wireFormat xmlDeclaration_def completeOpenTag_def)
  have b: "readCompleteMultipartUpload (CompleteMultipartUpload_body etags) =
          Some (map (\<lambda>i. (i + 1, etags ! i)) [0..<length etags])"
    if "\<forall>etag \<in> set etags. etagText etag"
  proof -
    from that have "list_all etagText etags" by (simp add: list_all_iff)
    then show ?thesis by (rule readCompleteMultipartUpload_body)
  qed
  from a b show ?thesis by blast
qed

text \<open>
  The theorem at the ETags e1, e2, e3: the body is the one of the spec's scenario 4,
  and the parts read from it are the three pairs.
\<close>

theorem CompleteMultipartUpload_body_wireFormat_witness:
  \<open>CompleteMultipartUpload_body [''e1'', ''e2'', ''e3''] =
     ''<?xml version="1.0" encoding="UTF-8" ?>\<newline><CompleteMultipartUpload xmlns="http://s3.amazonaws.com/doc/2006-03-01/">\<newline>   <Part>\<newline>       <ETag>e1</ETag>\<newline>       <PartNumber>1</PartNumber>\<newline>   </Part>\<newline>   <Part>\<newline>       <ETag>e2</ETag>\<newline>       <PartNumber>2</PartNumber>\<newline>   </Part>\<newline>   <Part>\<newline>       <ETag>e3</ETag>\<newline>       <PartNumber>3</PartNumber>\<newline>   </Part>\<newline></CompleteMultipartUpload>''
   \<and> list_all etagText [''e1'', ''e2'', ''e3'']
   \<and> readCompleteMultipartUpload (CompleteMultipartUpload_body [''e1'', ''e2'', ''e3'']) =
        Some [(1, ''e1''), (2, ''e2''), (3, ''e3'')]\<close>
proof -
  note th = CompleteMultipartUpload_body_wireFormat[of "[''e1'', ''e2'', ''e3'']"]
  have a: \<open>CompleteMultipartUpload_body [''e1'', ''e2'', ''e3''] =
     ''<?xml version="1.0" encoding="UTF-8" ?>\<newline><CompleteMultipartUpload xmlns="http://s3.amazonaws.com/doc/2006-03-01/">\<newline>   <Part>\<newline>       <ETag>e1</ETag>\<newline>       <PartNumber>1</PartNumber>\<newline>   </Part>\<newline>   <Part>\<newline>       <ETag>e2</ETag>\<newline>       <PartNumber>2</PartNumber>\<newline>   </Part>\<newline>   <Part>\<newline>       <ETag>e3</ETag>\<newline>       <PartNumber>3</PartNumber>\<newline>   </Part>\<newline></CompleteMultipartUpload>''\<close>
    using th[THEN conjunct1]
    by (simp add: wireFormat_CompleteMultipartUpload_def wireFormat_Part_def decimal_digits
        upt_conv_Cons del: upt_Suc)
  have h: "list_all etagText [''e1'', ''e2'', ''e3'']"
    by (simp add: etagText_def etagChar_def xmlChar_def CR_def)
  then have h': "\<forall>etag \<in> set [''e1'', ''e2'', ''e3'']. etagText etag"
    unfolding list_all_iff .
  have "readCompleteMultipartUpload (CompleteMultipartUpload_body [''e1'', ''e2'', ''e3'']) =
          Some (map (\<lambda>i. (i + 1, [''e1'', ''e2'', ''e3''] ! i)) [0..<length [''e1'', ''e2'', ''e3'']])"
    using th[THEN conjunct2] h' by (rule mp)
  also have "map (\<lambda>i. (i + 1, [''e1'', ''e2'', ''e3''] ! i)) [0..<length [''e1'', ''e2'', ''e3'']] =
        [(1, ''e1''), (2, ''e2''), (3, ''e3'')]"
    by (simp add: upt_conv_Cons del: upt_Suc)
  finally have b: "readCompleteMultipartUpload (CompleteMultipartUpload_body [''e1'', ''e2'', ''e3'']) =
        Some [(1, ''e1''), (2, ''e2''), (3, ''e3'')]" .
  from a h b show ?thesis by (intro conjI)
qed

text \<open>
  The round trip of the claim fails for ETags that contain markup: two different lists
  of two ETags give the same body, and what the parser reads from it is three parts
  with the numbers 1, 1, 2, the input pairs of neither.
\<close>

theorem CompleteMultipartUpload_body_collision:
  "CompleteMultipartUpload_body exETagsA = CompleteMultipartUpload_body exETagsB
   \<and> exETagsA \<noteq> exETagsB
   \<and> length exETagsA = 2
   \<and> readCompleteMultipartUpload (CompleteMultipartUpload_body exETagsA) =
        Some [(1, ''X''), (1, ''Y''), (2, ''Z'')]"
proof -
  have "CompleteMultipartUpload_body exETagsA = CompleteMultipartUpload_body exETagsB \<and> exETagsA \<noteq> exETagsB"
    by (simp add: CompleteMultipartUpload_body_def exETagsA_def exETagsB_def decimal_digits)
  moreover have "length exETagsA = 2" by (simp add: exETagsA_def)
  ultimately show ?thesis using read_collision by (intro conjI) blast+
qed

section \<open>Properties of the multipart upload\<close>

subsection \<open>Operations report at most once\<close>

lemma statusRequest_at_most_once:
  "statusRequest successStatus r t outcome = Some (Inr (t', r', finished)) \<Longrightarrow> length finished \<le> 1"
  by (drule statusRequest_calls) (simp split: option.splits)

lemma CreateMultipartUpload_at_most_once:
  "CreateMultipartUpload r t key outcome = Some (Inr (t', r', finished)) \<Longrightarrow> length finished \<le> 1"
  by (drule CreateMultipartUpload_calls) (simp split: option.splits)

lemma PutObject_at_most_once:
  "PutObject r t key (Some b) flags outcome = Some (Inr (t', r', finished)) \<Longrightarrow> length finished \<le> 1"
  by (drule PutObject_calls) (simp split: option.splits)

lemma PutObject_null_body: "PutObject r t key None flags outcome = Some (Inl FatalAssert)"
  by (simp add: PutObject_def)

lemma fold_run_Nil_Inr: "fold_run f [] b = Some (Inr b') \<longleftrightarrow> b' = b"
  by auto

lemma fold_run_single: "fold_run f [x] b = f x b"
  by (simp add: bind_run_def split: option.splits sum.splits)

lemma length_le_1_cases: "length xs \<le> 1 \<Longrightarrow> xs = [] \<or> (\<exists>x. xs = [x])"
  by (cases xs) auto

lemma isEvent_simps [simp]:
  "isComplete (Call_CreateMultipartUpload k) = False"
  "isComplete (Call_PutObject k b) = False"
  "isComplete (Call_CompleteMultipartUpload k u es) = True"
  "isComplete (Call_AbortMultipartUpload k u) = False"
  "isComplete (PartFinished i p) = False"
  "isComplete (Finished e n) = False"
  "isAbort (Call_CreateMultipartUpload k) = False"
  "isAbort (Call_PutObject k b) = False"
  "isAbort (Call_CompleteMultipartUpload k u es) = False"
  "isAbort (Call_AbortMultipartUpload k u) = True"
  "isAbort (PartFinished i p) = False"
  "isAbort (Finished e n) = False"
  "isFinished (Call_CreateMultipartUpload k) = False"
  "isFinished (Call_PutObject k b) = False"
  "isFinished (Call_CompleteMultipartUpload k u es) = False"
  "isFinished (Call_AbortMultipartUpload k u) = False"
  "isFinished (PartFinished i p) = False"
  "isFinished (Finished e n) = True"
  by (simp_all add: isComplete_def isAbort_def isFinished_def)

lemma emit_simps [simp]:
  "trace (emit events run) = trace run @ events"
  "uploadState (emit events run) = uploadState run"
  "doneParts (emit events run) = doneParts run"
  "transport (emit events run) = transport run"
  "resolver (emit events run) = resolver run"
  by (simp_all add: emit_def)

text \<open>The finished callback of the state: what it adds to the trace.\<close>

lemma statusRequest_noStream:
  assumes "statusRequest successStatus r t outcome = Some (Inr (t', r', finished))"
  shows "map (\<lambda>e::aws_error. x) finished = (if noStream outcome then [] else [x])"
  using statusRequest_calls[OF assms] by (auto simp: noStream_def split: option.splits)

lemma PutObjectMultipart_finishedCallback_result:
  assumes "PutObjectMultipart_finishedCallback outcomes errorCode run = Some (Inr run')"
  shows "uploadState run' = uploadState run \<and> doneParts run' = doneParts run \<and>
        trace run' = trace run @
          (if errorCode \<noteq> AWS_ERROR_SUCCESS
           then Call_AbortMultipartUpload (m_key (uploadState run)) (m_uploadId (uploadState run)) #
                  (if noStream (abortOutcome outcomes) then []
                   else [Finished errorCode (m_numParts (uploadState run))])
           else [Finished errorCode (m_numParts (uploadState run))])"
proof (cases "errorCode = AWS_ERROR_SUCCESS")
  case True
  with assms have "run' = emit [Finished errorCode (m_numParts (uploadState run))] run"
    by (simp add: PutObjectMultipart_finishedCallback_def Let_def)
  then show ?thesis using True by simp
next
  case False
  with assms obtain t' r' finished where
    a: "AbortMultipartUpload (resolver run) (transport run) (m_key (uploadState run))
          (m_uploadId (uploadState run)) (abortOutcome outcomes) = Some (Inr (t', r', finished))"
    and r: "run' = emit (Call_AbortMultipartUpload (m_key (uploadState run)) (m_uploadId (uploadState run)) #
                          map (\<lambda>abortError. Finished errorCode (m_numParts (uploadState run))) finished)
                     (run\<lparr>transport := t', resolver := r'\<rparr>)"
    by (auto simp: PutObjectMultipart_finishedCallback_def Let_def bind_run_Inr)
  have "map (\<lambda>abortError. Finished errorCode (m_numParts (uploadState run))) finished =
        (if noStream (abortOutcome outcomes) then []
         else [Finished errorCode (m_numParts (uploadState run))])"
    using a by (simp add: AbortMultipartUpload_def statusRequest_noStream)
  then show ?thesis using r False by simp
qed

subsection \<open>Finishing the state\<close>

lemma filter_map_Finished [simp]:
  "filter isAbort (map (\<lambda>a. Finished e n) xs) = []"
  "filter isComplete (map (\<lambda>a. Finished e n) xs) = []"
  "filter isFinished (map (\<lambda>a. Finished e n) xs) = map (\<lambda>a. Finished e n) xs"
  by (induction xs) simp_all

lemma finishesI:
  assumes "doneParts run' = doneParts run"
    and "uploadState run' = (uploadState run)\<lparr>m_finishedError := fe\<rparr>"
    and "trace run' = trace run @ events"
    and "list_all (\<lambda>event. isAbort event \<or> isFinished event) events"
  shows "finishes run run'"
  unfolding finishes_def using assms by blast

lemma finishes_refl: "finishes run run"
  by (rule finishesI[where fe = "m_finishedError (uploadState run)" and events = "[]"]) simp_all

lemma finishes_trans:
  assumes "finishes a b" and "finishes b c"
  shows "finishes a c"
proof -
  from assms(1) obtain fe1 ev1 where 1: "doneParts b = doneParts a"
    "uploadState b = (uploadState a)\<lparr>m_finishedError := fe1\<rparr>"
    "trace b = trace a @ ev1" "list_all (\<lambda>event. isAbort event \<or> isFinished event) ev1"
    unfolding finishes_def by blast
  from assms(2) obtain fe2 ev2 where 2: "doneParts c = doneParts b"
    "uploadState c = (uploadState b)\<lparr>m_finishedError := fe2\<rparr>"
    "trace c = trace b @ ev2" "list_all (\<lambda>event. isAbort event \<or> isFinished event) ev2"
    unfolding finishes_def by blast
  show ?thesis
  proof (rule finishesI[where fe = fe2 and events = "ev1 @ ev2"])
    show "doneParts c = doneParts a" using 1(1) 2(1) by simp
    show "uploadState c = (uploadState a)\<lparr>m_finishedError := fe2\<rparr>" using 1(2) 2(2) by simp
    show "trace c = trace a @ ev1 @ ev2" using 1(3) 2(3) by simp
    show "list_all (\<lambda>event. isAbort event \<or> isFinished event) (ev1 @ ev2)"
      using 1(4) 2(4) by (auto simp: list_all_iff)
  qed
qed

lemma finishes_frame:
  assumes "finishes run run'"
  shows "doneParts run' = doneParts run"
    and "m_key (uploadState run') = m_key (uploadState run)"
    and "m_numParts (uploadState run') = m_numParts (uploadState run)"
    and "m_uploadId (uploadState run') = m_uploadId (uploadState run)"
    and "m_etags (uploadState run') = m_etags (uploadState run)"
    and "m_numPartsCompleted (uploadState run') = m_numPartsCompleted (uploadState run)"
    and "filter isComplete (trace run') = filter isComplete (trace run)"
    and "(PartFinished i p \<in> set (trace run')) = (PartFinished i p \<in> set (trace run))"
    and "(Call_CompleteMultipartUpload k u es \<in> set (trace run')) = (Call_CompleteMultipartUpload k u es \<in> set (trace run))"
proof -
  from assms obtain fe ev where f: "doneParts run' = doneParts run"
    "uploadState run' = (uploadState run)\<lparr>m_finishedError := fe\<rparr>"
    "trace run' = trace run @ ev" "list_all (\<lambda>event. isAbort event \<or> isFinished event) ev"
    unfolding finishes_def by blast
  show "doneParts run' = doneParts run" by (rule f(1))
  show "m_key (uploadState run') = m_key (uploadState run)" using f(2) by simp
  show "m_numParts (uploadState run') = m_numParts (uploadState run)" using f(2) by simp
  show "m_uploadId (uploadState run') = m_uploadId (uploadState run)" using f(2) by simp
  show "m_etags (uploadState run') = m_etags (uploadState run)" using f(2) by simp
  show "m_numPartsCompleted (uploadState run') = m_numPartsCompleted (uploadState run)" using f(2) by simp
  have nc: "filter isComplete ev = []"
    using f(4) by (induction ev) (auto simp: isComplete_def isAbort_def isFinished_def split: UploadEvent.splits)
  show "filter isComplete (trace run') = filter isComplete (trace run)" using f(3) nc by simp
  have np: "PartFinished i p \<notin> set ev" using f(4) by (auto simp: list_all_iff)
  show "(PartFinished i p \<in> set (trace run')) = (PartFinished i p \<in> set (trace run))"
    using f(3) np by simp
  have ncc: "Call_CompleteMultipartUpload k u es \<notin> set ev" using f(4) by (auto simp: list_all_iff)
  show "(Call_CompleteMultipartUpload k u es \<in> set (trace run')) = (Call_CompleteMultipartUpload k u es \<in> set (trace run))"
    using f(3) ncc by simp
qed

lemma partsInv_finishes:
  assumes "finishes run run'" and "partsInv run"
  shows "partsInv run'"
  using assms(2) unfolding partsInv_def
  by (simp add: finishes_frame[OF assms(1)])

lemma SetFinished_result:
  assumes s: "SetFinished outcomes errorCode run = Some (Inr run')" and inv: "finishInv outcomes run"
  shows "finishInv outcomes run'" and "finishes run run'" and "m_finishedError (uploadState run') \<noteq> None"
    and "m_finishedError (uploadState run) = None \<Longrightarrow> m_finishedError (uploadState run') = Some errorCode"
proof -
  have all: "finishInv outcomes run' \<and> finishes run run' \<and> m_finishedError (uploadState run') \<noteq> None \<and>
     (m_finishedError (uploadState run) = None \<longrightarrow> m_finishedError (uploadState run') = Some errorCode)"
  proof (cases "m_finishedError (uploadState run)")
    case (Some e)
    with s have "run' = run" by (simp add: SetFinished_def)
    then show ?thesis using inv Some finishes_refl by simp
  next
    case None
    let ?run1 = "run\<lparr>uploadState := (uploadState run)\<lparr>m_finishedError := Some errorCode\<rparr>\<rparr>"
    from s None have cb: "PutObjectMultipart_finishedCallback outcomes errorCode ?run1 = Some (Inr run')"
      by (simp add: SetFinished_def)
    let ?events = "if errorCode \<noteq> AWS_ERROR_SUCCESS
           then Call_AbortMultipartUpload (m_key (uploadState ?run1)) (m_uploadId (uploadState ?run1)) #
                  (if noStream (abortOutcome outcomes) then []
                   else [Finished errorCode (m_numParts (uploadState ?run1))])
           else [Finished errorCode (m_numParts (uploadState ?run1))]"
    from PutObjectMultipart_finishedCallback_result[OF cb] have
      st: "uploadState run' = uploadState ?run1" and dp: "doneParts run' = doneParts ?run1"
      and tr: "trace run' = trace ?run1 @ ?events"
      by blast+
    from inv None have e: "filter isAbort (trace run) = []" "filter isFinished (trace run) = []"
      by (simp_all add: finishInv_def)
    have fi: "finishInv outcomes run'"
      unfolding finishInv_def using st tr e by simp
    have fr: "finishes run run'"
    proof (rule finishesI[where fe = "Some errorCode" and events = ?events])
      show "doneParts run' = doneParts run" using dp by simp
      show "uploadState run' = (uploadState run)\<lparr>m_finishedError := Some errorCode\<rparr>" using st by simp
      show "trace run' = trace run @ ?events"
        using tr by simp
      show "list_all (\<lambda>event. isAbort event \<or> isFinished event) ?events"
        by (simp add: list_all_iff)
    qed
    show ?thesis using fi fr st None by simp
  qed
  show "finishInv outcomes run'" "finishes run run'" "m_finishedError (uploadState run') \<noteq> None"
    "m_finishedError (uploadState run) = None \<Longrightarrow> m_finishedError (uploadState run') = Some errorCode"
    using all by simp_all
qed

lemma fold_SetFinished_result:
  assumes "fold_run (SetFinished outcomes) finished run = Some (Inr run')" and "finishInv outcomes run"
  shows "finishInv outcomes run' \<and> finishes run run'"
  using assms
proof (induction finished arbitrary: run)
  case Nil
  then show ?case using finishes_refl by simp
next
  case (Cons e finished)
  from Cons.prems(1) obtain run1 where 1: "SetFinished outcomes e run = Some (Inr run1)"
    and 2: "fold_run (SetFinished outcomes) finished run1 = Some (Inr run')"
    by (auto simp: bind_run_Inr)
  note r = SetFinished_result[OF 1 Cons.prems(2)]
  from Cons.IH[OF 2 r(1)] r(2) show ?case using finishes_trans by blast
qed

subsection \<open>The callback of UploadPart\<close>

lemma doneParts_less:
  assumes "distinct ds" and "list_all (\<lambda>i. i < n) ds" and "i < n" and "i \<notin> set ds"
  shows "length ds < n"
proof -
  have "set ds \<subseteq> {..<n} - {i}" using assms(2,4) by (auto simp: list_all_iff)
  then have "card (set ds) \<le> card ({..<n} - {i})" by (intro card_mono) simp_all
  also have "\<dots> = n - 1" using assms(3) by simp
  finally show ?thesis using assms(1,3) by (simp add: distinct_card)
qed

lemma finishInv_cong:
  assumes "finishInv outcomes run"
    and "m_finishedError (uploadState run') = m_finishedError (uploadState run)"
    and "m_key (uploadState run') = m_key (uploadState run)"
    and "m_uploadId (uploadState run') = m_uploadId (uploadState run)"
    and "m_numParts (uploadState run') = m_numParts (uploadState run)"
    and "filter isAbort (trace run') = filter isAbort (trace run)"
    and "filter isFinished (trace run') = filter isFinished (trace run)"
  shows "finishInv outcomes run'"
  using assms(1) unfolding finishInv_def assms(2-7) .

lemma partFinished_simps [simp]:
  "trace (partFinished ts response run) = trace run @ [PartFinished (GetPartIndex ts) response]"
  "uploadState (partFinished ts response run) = uploadState run"
  "doneParts (partFinished ts response run) =
     (if response = Done then GetPartIndex ts # doneParts run else doneParts run)"
  "transport (partFinished ts response run) = transport run"
  "resolver (partFinished ts response run) = resolver run"
  by (simp_all add: partFinished_def)

lemma SetETag_simps [simp]:
  "m_key (SetETag state i e) = m_key state"
  "m_numParts (SetETag state i e) = m_numParts state"
  "m_uploadId (SetETag state i e) = m_uploadId state"
  "m_numPartsCompleted (SetETag state i e) = m_numPartsCompleted state"
  "m_finishedError (SetETag state i e) = m_finishedError state"
  "m_objectSize (SetETag state i e) = m_objectSize state"
  by (simp_all add: SetETag_def)

lemma SetETag_etags:
  "i < length (m_etags (SetETag state i e))" "m_etags (SetETag state i e) ! i = e"
  by (simp_all add: SetETag_def)

lemma IncNumPartsCompleted_simps [simp]:
  "fst (IncNumPartsCompleted state) = (m_numPartsCompleted state + 1 = m_numParts state)"
  "m_key (snd (IncNumPartsCompleted state)) = m_key state"
  "m_numParts (snd (IncNumPartsCompleted state)) = m_numParts state"
  "m_uploadId (snd (IncNumPartsCompleted state)) = m_uploadId state"
  "m_numPartsCompleted (snd (IncNumPartsCompleted state)) = m_numPartsCompleted state + 1"
  "m_finishedError (snd (IncNumPartsCompleted state)) = m_finishedError state"
  "m_etags (snd (IncNumPartsCompleted state)) = m_etags state"
  by (simp_all add: IncNumPartsCompleted_def)

text \<open>The three ways the callback of UploadPart ends.\<close>

lemma UploadPart_finished_retry:
  assumes "snd result = None \<or> fst result \<noteq> AWS_ERROR_SUCCESS"
  shows "UploadPart_finished outcomes ts result run = Some (Inr (partFinished ts Retry run))"
proof (cases result)
  case (Pair errorCode etag)
  show ?thesis
  proof (cases etag)
    case None
    then show ?thesis unfolding Pair UploadPart_finished_def by simp
  next
    case (Some e)
    with assms Pair have "errorCode \<noteq> AWS_ERROR_SUCCESS" by simp
    then show ?thesis unfolding Pair Some UploadPart_finished_def by simp
  qed
qed

lemma UploadPart_finished_done:
  assumes "m_numPartsCompleted (uploadState run) + 1 \<noteq> m_numParts (uploadState run)"
  shows "UploadPart_finished outcomes ts (AWS_ERROR_SUCCESS, Some etag) run =
     Some (Inr (partFinished ts Done
        (run\<lparr>uploadState := snd (IncNumPartsCompleted (SetETag (uploadState run) (GetPartIndex ts) etag))\<rparr>)))"
proof -
  define state2 where
    "state2 = snd (IncNumPartsCompleted (SetETag (uploadState run) (GetPartIndex ts) etag))"
  have inc: "IncNumPartsCompleted (SetETag (uploadState run) (GetPartIndex ts) etag) = (False, state2)"
    using assms by (simp add: IncNumPartsCompleted_def state2_def)
  show ?thesis
    unfolding state2_def[symmetric]
    by (simp add: UploadPart_finished_def inc Let_def)
qed

lemma UploadPart_finished_last:
  assumes "m_numPartsCompleted (uploadState run) + 1 = m_numParts (uploadState run)"
    and "UploadPart_finished outcomes ts (AWS_ERROR_SUCCESS, Some etag) run = Some (Inr run')"
  shows "\<exists>t' r' finished.
     CompleteMultipartUpload (resolver run) (transport run) (m_key (uploadState run))
        (m_uploadId (uploadState run))
        (m_etags (SetETag (uploadState run) (GetPartIndex ts) etag))
        (completeOutcome outcomes) = Some (Inr (t', r', finished)) \<and>
     fold_run (SetFinished outcomes) finished
       ((partFinished ts Done
          (emit [Call_CompleteMultipartUpload (m_key (uploadState run)) (m_uploadId (uploadState run))
                   (m_etags (SetETag (uploadState run) (GetPartIndex ts) etag))]
             (run\<lparr>uploadState := snd (IncNumPartsCompleted (SetETag (uploadState run) (GetPartIndex ts) etag))\<rparr>)))
          \<lparr>transport := t', resolver := r'\<rparr>) = Some (Inr run')"
proof -
  define state2 where
    "state2 = snd (IncNumPartsCompleted (SetETag (uploadState run) (GetPartIndex ts) etag))"
  have inc: "IncNumPartsCompleted (SetETag (uploadState run) (GetPartIndex ts) etag) = (True, state2)"
    using assms(1) by (simp add: IncNumPartsCompleted_def state2_def)
  have s2: "m_key state2 = m_key (uploadState run)" "m_uploadId state2 = m_uploadId (uploadState run)"
    "m_etags state2 = m_etags (SetETag (uploadState run) (GetPartIndex ts) etag)"
    by (simp_all add: state2_def)
  from assms(2) have
    "bind_run
       (CompleteMultipartUpload (resolver run) (transport run) (m_key state2) (m_uploadId state2)
          (m_etags state2) (completeOutcome outcomes))
       (\<lambda>(t', r', finished).
          fold_run (SetFinished outcomes) finished
            ((partFinished ts Done
               (emit [Call_CompleteMultipartUpload (m_key state2) (m_uploadId state2) (m_etags state2)]
                  (run\<lparr>uploadState := state2\<rparr>)))\<lparr>transport := t', resolver := r'\<rparr>)) = Some (Inr run')"
    by (simp add: UploadPart_finished_def inc Let_def GetETags_def)
  then show ?thesis
    unfolding bind_run_Inr s2 state2_def[symmetric] by auto
qed

lemma partsInv_Retry:
  assumes "partsInv run"
  shows "partsInv (partFinished ts Retry run)"
  using assms unfolding partsInv_def by simp

lemma finishInv_partFinished:
  assumes "finishInv outcomes run"
  shows "finishInv outcomes (partFinished ts response run)"
  by (rule finishInv_cong[OF assms]) simp_all

lemma partsInv_Done:
  assumes p: "partsInv run"
    and i: "GetPartIndex ts < m_numParts (uploadState run)" "GetPartIndex ts \<notin> set (doneParts run)"
    and state2: "m_numParts state2 = m_numParts (uploadState run)"
      "m_numPartsCompleted state2 = m_numPartsCompleted (uploadState run) + 1"
    and events: "events = (if m_numPartsCompleted (uploadState run) + 1 = m_numParts (uploadState run)
                            then [Call_CompleteMultipartUpload k u es] else [])"
  shows "partsInv (partFinished ts Done (emit events (run\<lparr>uploadState := state2\<rparr>)))"
proof -
  from p have d: "distinct (doneParts run)"
    and a: "list_all (\<lambda>i. i < m_numParts (uploadState run)) (doneParts run)"
    and c: "m_numPartsCompleted (uploadState run) = length (doneParts run)"
    and m: "\<forall>i. (PartFinished i Done \<in> set (trace run)) = (i \<in> set (doneParts run))"
    and n: "length (filter isComplete (trace run)) =
          (if doneParts run \<noteq> [] \<and> length (doneParts run) = m_numParts (uploadState run) then 1 else 0)"
    unfolding partsInv_def by blast+
  have lt: "length (doneParts run) < m_numParts (uploadState run)"
    using doneParts_less[OF d a i] .
  then have n0: "length (filter isComplete (trace run)) = 0" using n by simp
  have pe: "PartFinished j Done \<notin> set events" for j using events by simp
  have ce: "length (filter isComplete events) =
      (if m_numPartsCompleted (uploadState run) + 1 = m_numParts (uploadState run) then 1 else 0)"
    using events by simp
  show ?thesis
    unfolding partsInv_def
    using d a c m n0 i state2 pe ce by (auto simp: list_all_iff)
qed

lemma UploadPart_finished_inv:
  assumes u: "UploadPart_finished outcomes ts result run = Some (Inr run')"
    and p: "partsInv run" and f: "finishInv outcomes run"
    and i: "GetPartIndex ts < m_numParts (uploadState run)" "GetPartIndex ts \<notin> set (doneParts run)"
  shows "partsInv run' \<and> finishInv outcomes run' \<and>
         m_key (uploadState run') = m_key (uploadState run) \<and>
         m_numParts (uploadState run') = m_numParts (uploadState run) \<and>
         m_uploadId (uploadState run') = m_uploadId (uploadState run)"
proof (cases "snd result = None \<or> fst result \<noteq> AWS_ERROR_SUCCESS")
  case True
  from u have "run' = partFinished ts Retry run"
    unfolding UploadPart_finished_retry[OF True] by simp
  then show ?thesis using partsInv_Retry[OF p] finishInv_partFinished[OF f] by simp
next
  case False
  then obtain etag where res: "result = (AWS_ERROR_SUCCESS, Some etag)"
    by (cases result) auto
  let ?state2 = "snd (IncNumPartsCompleted (SetETag (uploadState run) (GetPartIndex ts) etag))"
  show ?thesis
  proof (cases "m_numPartsCompleted (uploadState run) + 1 = m_numParts (uploadState run)")
    case notlast: False
    from u have r: "run' = partFinished ts Done (run\<lparr>uploadState := ?state2\<rparr>)"
      unfolding res UploadPart_finished_done[OF notlast] by simp
    have "partsInv (partFinished ts Done (emit [] (run\<lparr>uploadState := ?state2\<rparr>)))"
      by (rule partsInv_Done[OF p i]) (use notlast in simp_all)
    then have pi: "partsInv run'" unfolding r by (simp add: emit_def)
    have fi: "finishInv outcomes run'" unfolding r
      by (rule finishInv_cong[OF f]) simp_all
    show ?thesis using pi fi unfolding r by simp
  next
    case last: True
    let ?events = "[Call_CompleteMultipartUpload (m_key (uploadState run)) (m_uploadId (uploadState run))
                   (m_etags (SetETag (uploadState run) (GetPartIndex ts) etag))]"
    let ?run1 = "partFinished ts Done (emit ?events (run\<lparr>uploadState := ?state2\<rparr>))"
    from UploadPart_finished_last[OF last u[unfolded res]] obtain t' r' finished where
      fold: "fold_run (SetFinished outcomes) finished (?run1\<lparr>transport := t', resolver := r'\<rparr>) = Some (Inr run')"
      by blast
    have p1: "partsInv ?run1"
      by (rule partsInv_Done[OF p i]) (use last in simp_all)
    then have p1': "partsInv (?run1\<lparr>transport := t', resolver := r'\<rparr>)"
      unfolding partsInv_def by simp
    have f1: "finishInv outcomes ?run1"
      by (rule finishInv_cong[OF f]) simp_all
    have f1': "finishInv outcomes (?run1\<lparr>transport := t', resolver := r'\<rparr>)"
      by (rule finishInv_cong[OF f1]) simp_all
    from fold_SetFinished_result[OF fold f1'] have fi: "finishInv outcomes run'"
      and fin: "finishes (?run1\<lparr>transport := t', resolver := r'\<rparr>) run'" by simp_all
    have pi: "partsInv run'" by (rule partsInv_finishes[OF fin p1'])
    show ?thesis using pi fi finishes_frame(2,3,4)[OF fin] by simp
  qed
qed

subsection \<open>The invariants along a run\<close>

lemma partsInv_cong:
  assumes "partsInv run"
    and "doneParts run' = doneParts run"
    and "m_numParts (uploadState run') = m_numParts (uploadState run)"
    and "m_numPartsCompleted (uploadState run') = m_numPartsCompleted (uploadState run)"
    and "\<And>i. (PartFinished i Done \<in> set (trace run')) = (PartFinished i Done \<in> set (trace run))"
    and "filter isComplete (trace run') = filter isComplete (trace run)"
  shows "partsInv run'"
  using assms(1) unfolding partsInv_def assms(2-6) .

lemma bind_run_fold_Nil [simp]: "bind_run m (fold_run f []) = m"
  by (auto simp: bind_run_def fun_eq_iff split: option.splits sum.splits)

lemma UploadPart_inv:
  assumes u: "UploadPart outcomes ts body outcome run = Some (Inr run')"
    and p: "partsInv run" and f: "finishInv outcomes run"
    and i: "GetPartIndex ts < m_numParts (uploadState run)" "GetPartIndex ts \<notin> set (doneParts run)"
  shows "partsInv run' \<and> finishInv outcomes run' \<and>
         m_key (uploadState run') = m_key (uploadState run) \<and>
         m_numParts (uploadState run') = m_numParts (uploadState run) \<and>
         m_uploadId (uploadState run') = m_uploadId (uploadState run)"
proof -
  let ?keyPathStr = "m_key (uploadState run) @ ''?partNumber='' @ decimal (GetPartNumber ts)
                         @ ''&uploadId='' @ m_uploadId (uploadState run)"
  from u obtain t' r' finished where
    put: "PutObject (resolver run) (transport run) ?keyPathStr body RetrieveETag outcome =
            Some (Inr (t', r', finished))"
    and fold: "fold_run (UploadPart_finished outcomes ts) finished
                (emit [Call_PutObject ?keyPathStr body] (run\<lparr>transport := t', resolver := r'\<rparr>)) =
               Some (Inr run')"
    unfolding UploadPart_def Let_def bind_run_Inr by auto
  let ?run1 = "emit [Call_PutObject ?keyPathStr body] (run\<lparr>transport := t', resolver := r'\<rparr>)"
  have p1: "partsInv ?run1" by (rule partsInv_cong[OF p]) simp_all
  have f1: "finishInv outcomes ?run1" by (rule finishInv_cong[OF f]) simp_all
  from put obtain b where "body = Some b"
    by (cases body) (simp_all add: PutObject_null_body)
  with put have "length finished \<le> 1" using PutObject_at_most_once by blast
  then consider "finished = []" | x where "finished = [x]" using length_le_1_cases by blast
  then show ?thesis
  proof cases
    case 1
    with fold have "run' = ?run1" by simp
    then show ?thesis using p1 f1 by simp
  next
    case 2
    with fold have "UploadPart_finished outcomes ts x ?run1 = Some (Inr run')"
      by (simp add: fold_run_single)
    from UploadPart_finished_inv[OF this p1 f1] i show ?thesis by simp
  qed
qed

lemma processParts_inv:
  assumes "processParts outcomes sendPart attempts run = Some (Inr run')"
    and "partsInv run" and "finishInv outcomes run"
  shows "partsInv run' \<and> finishInv outcomes run' \<and>
         m_key (uploadState run') = m_key (uploadState run) \<and>
         m_numParts (uploadState run') = m_numParts (uploadState run) \<and>
         m_uploadId (uploadState run') = m_uploadId (uploadState run)"
  using assms
proof (induction attempts arbitrary: run)
  case Nil
  then show ?case by simp
next
  case (Cons attempt attempts)
  obtain partIndex outcome where a: "attempt = (partIndex, outcome)" by (cases attempt)
  show ?case
  proof (cases "partIndex < m_numParts (uploadState run) \<and> partIndex \<notin> set (doneParts run)")
    case True
    with Cons.prems(1) a obtain run1 where
      u: "UploadPart outcomes \<lparr>m_partIndex = partIndex\<rparr> (sendPart \<lparr>m_partIndex = partIndex\<rparr>) outcome run =
            Some (Inr run1)"
      and rest: "processParts outcomes sendPart attempts run1 = Some (Inr run')"
      by (auto simp: bind_run_Inr)
    have "partsInv run1 \<and> finishInv outcomes run1 \<and>
         m_key (uploadState run1) = m_key (uploadState run) \<and>
         m_numParts (uploadState run1) = m_numParts (uploadState run) \<and>
         m_uploadId (uploadState run1) = m_uploadId (uploadState run)"
      by (rule UploadPart_inv[OF u Cons.prems(2,3)]) (use True in \<open>simp_all add: GetPartIndex_def\<close>)
    with Cons.IH[OF rest] show ?thesis by simp
  next
    case False
    with Cons.prems(1) a have "processParts outcomes sendPart attempts run = Some (Inr run')"
      by auto
    from Cons.IH[OF this Cons.prems(2,3)] show ?thesis .
  qed
qed

lemma PutObjectMultipart_inv:
  assumes "PutObjectMultipart r t key objectSize numParts sendPart outcomes = Some (Inr run)"
  shows "partsInv run \<and> finishInv outcomes run \<and>
         m_key (uploadState run) = key \<and> m_numParts (uploadState run) = numParts"
proof -
  let ?state0 = "MultipartUploadState_new key objectSize numParts"
  from assms obtain t' r' finished where
    create: "CreateMultipartUpload r t key (createOutcome outcomes) = Some (Inr (t', r', finished))"
    and fold: "fold_run
                (\<lambda>(errorCode, uploadId) run.
                   if errorCode \<noteq> AWS_ERROR_SUCCESS
                   then SetFinished outcomes errorCode run
                   else processParts outcomes sendPart (partOutcomes outcomes)
                          (run\<lparr>uploadState := SetUploadId (uploadState run) uploadId\<rparr>))
                finished
                \<lparr>transport = t', resolver = r', uploadState = ?state0,
                 trace = [Call_CreateMultipartUpload key], doneParts = []\<rparr> = Some (Inr run)"
    unfolding PutObjectMultipart_def Let_def bind_run_Inr by auto
  let ?run0 = "\<lparr>transport = t', resolver = r', uploadState = ?state0,
                 trace = [Call_CreateMultipartUpload key], doneParts = []\<rparr>"
  have p0: "partsInv ?run0" by (simp add: partsInv_def MultipartUploadState_new_def)
  have f0: "finishInv outcomes ?run0" by (simp add: finishInv_def MultipartUploadState_new_def)
  have k0: "m_key (uploadState ?run0) = key" "m_numParts (uploadState ?run0) = numParts"
    by (simp_all add: MultipartUploadState_new_def)
  from create have "length finished \<le> 1" by (rule CreateMultipartUpload_at_most_once)
  then consider "finished = []" | x where "finished = [x]" using length_le_1_cases by blast
  then show ?thesis
  proof cases
    case 1
    with fold have "run = ?run0" by simp
    then show ?thesis using p0 f0 k0 by simp
  next
    case 2
    obtain errorCode uploadId where x: "x = (errorCode, uploadId)" by (cases x)
    show ?thesis
    proof (cases "errorCode = AWS_ERROR_SUCCESS")
      case False
      with fold 2 x have s: "SetFinished outcomes errorCode ?run0 = Some (Inr run)"
        by (simp add: fold_run_single)
      note r = SetFinished_result(1,2)[OF s f0]
      show ?thesis
        using r(1) partsInv_finishes[OF r(2) p0] finishes_frame(2,3)[OF r(2)] k0 by simp
    next
      case True
      let ?run1 = "?run0\<lparr>uploadState := SetUploadId (uploadState ?run0) uploadId\<rparr>"
      from fold 2 x True have pp: "processParts outcomes sendPart (partOutcomes outcomes) ?run1 = Some (Inr run)"
        by (simp add: fold_run_single)
      have p1: "partsInv ?run1" by (rule partsInv_cong[OF p0]) (simp_all add: SetUploadId_def)
      have f1: "finishInv outcomes ?run1" by (simp add: finishInv_def MultipartUploadState_new_def SetUploadId_def)
      from processParts_inv[OF pp p1 f1] show ?thesis
        by (simp add: SetUploadId_def MultipartUploadState_new_def)
    qed
  qed
qed

subsection \<open>Requests on a fabric with connection managers\<close>

text \<open>
  With at least one connection manager a request always returns, and what it returns
  is determined by the outcome of the request.
\<close>

lemma MakeSignedRequest_nonempty:
  assumes "m_connManagers t \<noteq> []" and "onStreamComplete opts = Some complete"
  shows "MakeSignedRequest r t opts (Some cb) outcome s =
     Some (Inr
       (if signingErrorCode outcome \<noteq> AWS_ERROR_SUCCESS
        then (t, r, s, cb None (signingErrorCode outcome))
        else if checkConnection (acquiredConnection outcome) (acquireErrorCode outcome) \<noteq> AWS_ERROR_SUCCESS
        then (t\<lparr>m_connManagersUseCount := m_connManagersUseCount t + 1\<rparr>, r, s,
              cb (acquiredConnection outcome)
                 (checkConnection (acquiredConnection outcome) (acquireErrorCode outcome)))
        else (case clientStream outcome of
                None \<Rightarrow> (t\<lparr>m_connManagersUseCount := m_connManagersUseCount t + 1,
                            m_activeRequestsCount := m_activeRequestsCount t + 1\<rparr>, r, s,
                         cb (acquiredConnection outcome) AWS_ERROR_SUCCESS)
              | Some stream \<Rightarrow>
                  (t\<lparr>m_connManagersUseCount := m_connManagersUseCount t + 1\<rparr>, r,
                   fst (complete stream (completionErrorCode stream) (fst (deliver opts stream s))),
                   snd (deliver opts stream s) @
                   snd (complete stream (completionErrorCode stream) (fst (deliver opts stream s))) @
                   cb (acquiredConnection outcome) AWS_ERROR_SUCCESS))))"
  unfolding MakeSignedRequest_eval[OF GetNextConnManager_nonempty[OF assms(1)] assms(2)]
  by (simp split: option.splits)

lemma exCompletes_fields [simp]:
  "signingErrorCode (exCompletes stream) = AWS_ERROR_SUCCESS"
  "acquiredConnection (exCompletes stream) = Some (HttpClientConnection True)"
  "acquireErrorCode (exCompletes stream) = AWS_ERROR_SUCCESS"
  by (simp_all add: exCompletes_def)

lemma exStream_fields [simp]:
  "incomingHeaders (exStream status headers chunks) = headers"
  "incomingBody (exStream status headers chunks) = chunks"
  "completionErrorCode (exStream status headers chunks) = AWS_ERROR_SUCCESS"
  "ResponseStatusCode (exStream status headers chunks) = status"
  by (simp_all add: exStream_def)

lemma PutObject_completes:
  assumes "m_connManagers t \<noteq> []"
  shows "PutObject r t key (Some b) RetrieveETag (exCompletes stream) =
     Some (Inr (t\<lparr>m_connManagersUseCount := m_connManagersUseCount t + 1\<rparr>, r,
                [(checkStatus 200 stream (completionErrorCode stream),
                  fold PutObject_onIncomingHeaders (incomingHeaders stream) (Some []))]))"
  unfolding PutObject_def Let_def
  by (simp add: MakeSignedRequest_nonempty[OF assms] deliver_def fold_invoke_state RetrieveETag_def
      checkConnection_def)

lemma CreateMultipartUpload_completes:
  assumes "m_connManagers t \<noteq> []"
  shows "CreateMultipartUpload r t key (exCompletes stream) =
     (case fold CreateMultipartUpload_onIncomingBody (incomingBody stream) (Some []) of
        None \<Rightarrow> Some (Inl ReadOutOfBounds)
      | Some uploadId \<Rightarrow>
          Some (Inr (t\<lparr>m_connManagersUseCount := m_connManagersUseCount t + 1\<rparr>, r,
            [(CreateMultipartUpload_onStreamComplete stream (completionErrorCode stream) uploadId,
              uploadId)])))"
  unfolding CreateMultipartUpload_def Let_def
  by (simp add: MakeSignedRequest_nonempty[OF assms] deliver_def fold_invoke_state checkConnection_def
      split: option.splits)

lemma statusRequest_completes:
  assumes "m_connManagers t \<noteq> []"
  shows "statusRequest successStatus r t (exCompletes stream) =
     Some (Inr (t\<lparr>m_connManagersUseCount := m_connManagersUseCount t + 1\<rparr>, r,
        [checkStatus successStatus stream (completionErrorCode stream)]))"
  unfolding statusRequest_def Let_def
  by (simp add: MakeSignedRequest_nonempty[OF assms] deliver_def checkConnection_def)

lemma statusRequest_no_stream:
  assumes "m_connManagers t \<noteq> []"
  shows "statusRequest successStatus r t exNoStream =
     Some (Inr (t\<lparr>m_connManagersUseCount := m_connManagersUseCount t + 1,
                   m_activeRequestsCount := m_activeRequestsCount t + 1\<rparr>, r, []))"
  unfolding statusRequest_def Let_def
  by (simp add: MakeSignedRequest_nonempty[OF assms])

lemma CreateMultipartUpload_sign_fails:
  "CreateMultipartUpload r t key exSignFails = Some (Inr (t, r, [(AWS_ERROR_OTHER 6000, [])]))"
  unfolding CreateMultipartUpload_def Let_def
  by (simp add: MakeSignedRequest_sign_error exSignFails_def)

lemma ex_scan_U1:
  "CreateMultipartUpload_onIncomingBody (exChunk ''<r><UploadId>U-1</UploadId></r>'') (Some []) =
     Some ''U-1''"
proof -
  have "String_of_ptr (ptr (exChunk ''<r><UploadId>U-1</UploadId></r>'')) =
          Some ''<r><UploadId>U-1</UploadId></r>''"
    by (rule exChunk_text) simp
  from CreateMultipartUpload_onIncomingBody_first_pair[OF this, of "[]"]
  show ?thesis
    by (simp add: uploadIdOpenTag_def uploadIdCloseTag_def string_find_def)
qed

lemma exFabric_managers: "m_connManagers exFabric \<noteq> []"
  by (simp add: exFabric_eq)

text \<open>
  The finished callback of the state, \<open>SetFinished\<close> and the complete and abort
  requests return on such a fabric, and leave its connection managers alone.
\<close>

lemma statusRequest_returns:
  assumes "m_connManagers t \<noteq> []"
  shows "\<exists>t' r' finished. statusRequest successStatus r t outcome = Some (Inr (t', r', finished))
           \<and> m_connManagers t' = m_connManagers t"
  unfolding statusRequest_def Let_def
  by (simp add: MakeSignedRequest_nonempty[OF assms] split: option.splits)

lemma PutObjectMultipart_finishedCallback_returns:
  assumes "m_connManagers (transport run) \<noteq> []"
  shows "\<exists>run'. PutObjectMultipart_finishedCallback outcomes errorCode run = Some (Inr run')
           \<and> m_connManagers (transport run') = m_connManagers (transport run)"
proof (cases "errorCode = AWS_ERROR_SUCCESS")
  case True
  then show ?thesis by (simp add: PutObjectMultipart_finishedCallback_def Let_def)
next
  case False
  from statusRequest_returns[OF assms, of 204 "resolver run" "abortOutcome outcomes"]
  obtain t' r' finished where
    "statusRequest 204 (resolver run) (transport run) (abortOutcome outcomes) = Some (Inr (t', r', finished))"
    "m_connManagers t' = m_connManagers (transport run)" by blast
  with False show ?thesis
    by (simp add: PutObjectMultipart_finishedCallback_def Let_def AbortMultipartUpload_def)
qed

lemma SetFinished_returns:
  assumes "m_connManagers (transport run) \<noteq> []"
  shows "\<exists>run'. SetFinished outcomes errorCode run = Some (Inr run')
           \<and> m_connManagers (transport run') = m_connManagers (transport run)
           \<and> finishes run run'"
proof (cases "m_finishedError (uploadState run)")
  case (Some e)
  then show ?thesis by (simp add: SetFinished_def finishes_refl)
next
  case None
  let ?run1 = "run\<lparr>uploadState := (uploadState run)\<lparr>m_finishedError := Some errorCode\<rparr>\<rparr>"
  have m: "m_connManagers (transport ?run1) \<noteq> []" using assms by simp
  from PutObjectMultipart_finishedCallback_returns[OF m, of outcomes errorCode]
  obtain run' where r: "PutObjectMultipart_finishedCallback outcomes errorCode ?run1 = Some (Inr run')"
    and m': "m_connManagers (transport run') = m_connManagers (transport ?run1)" by blast
  from PutObjectMultipart_finishedCallback_result[OF r] have
    u: "uploadState run' = uploadState ?run1" and d: "doneParts run' = doneParts ?run1"
    and t: "trace run' = trace ?run1 @
          (if errorCode \<noteq> AWS_ERROR_SUCCESS
           then Call_AbortMultipartUpload (m_key (uploadState ?run1)) (m_uploadId (uploadState ?run1)) #
                  (if noStream (abortOutcome outcomes) then []
                   else [Finished errorCode (m_numParts (uploadState ?run1))])
           else [Finished errorCode (m_numParts (uploadState ?run1))])"
    by blast+
  have f: "finishes run run'"
    by (rule finishesI[where fe = "Some errorCode", OF _ _ t[simplified]])
       (simp_all add: d u list_all_iff)
  show ?thesis using None r m' f by (simp add: SetFinished_def)
qed

lemma fold_SetFinished_returns:
  assumes "m_connManagers (transport run) \<noteq> []"
  shows "\<exists>run'. fold_run (SetFinished outcomes) finished run = Some (Inr run') \<and> finishes run run'
           \<and> m_connManagers (transport run') = m_connManagers (transport run)"
  using assms
proof (induction finished arbitrary: run)
  case Nil
  then show ?case by (simp add: finishes_refl)
next
  case (Cons e finished)
  from SetFinished_returns[OF Cons.prems, of outcomes e] obtain run1 where
    1: "SetFinished outcomes e run = Some (Inr run1)"
    and m: "m_connManagers (transport run1) = m_connManagers (transport run)"
    and f1: "finishes run run1" by blast
  from Cons.IH[of run1] m Cons.prems obtain run' where
    2: "fold_run (SetFinished outcomes) finished run1 = Some (Inr run')" and f2: "finishes run1 run'"
    and m': "m_connManagers (transport run') = m_connManagers (transport run1)"
    by auto
  show ?case using 1 2 finishes_trans[OF f1 f2] m m' by simp
qed

text \<open>
  Header blocks without a header named \<open>ETag\<close> leave the ETag of \<open>PutObject\<close> as
  it is, which for a request that retrieves the ETag is the empty string.
\<close>

lemma fold_onIncomingHeaders_no_ETag:
  assumes "\<forall>headersArray \<in> set blocks. \<forall>header \<in> set headersArray. fst header \<noteq> ''ETag''"
  shows "fold PutObject_onIncomingHeaders blocks (Some e) = Some e"
  using assms
proof (induction blocks)
  case Nil
  then show ?case by simp
next
  case (Cons headersArray blocks)
  have "fold (\<lambda>header e'. if fst header = ''ETag'' then snd header else e') hs e = e"
    if "\<forall>header \<in> set hs. fst header \<noteq> ''ETag''" for hs
    using that by (induction hs) simp_all
  then have "PutObject_onIncomingHeaders headersArray (Some e) = Some e"
    using Cons.prems by (simp add: PutObject_onIncomingHeaders_def)
  then show ?case using Cons by simp
qed

lemma PutObject_no_ETag:
  assumes managers: "m_connManagers t \<noteq> []"
    and sign: "signingErrorCode outcome = AWS_ERROR_SUCCESS"
    and conn: "checkConnection (acquiredConnection outcome) (acquireErrorCode outcome) = AWS_ERROR_SUCCESS"
    and stream: "clientStream outcome = Some stream"
    and complete: "completionErrorCode stream = AWS_ERROR_SUCCESS" "ResponseStatusCode stream = 200"
    and noETag: "\<forall>headersArray \<in> set (incomingHeaders stream). \<forall>header \<in> set headersArray. fst header \<noteq> ''ETag''"
  shows "PutObject r t key (Some body) RetrieveETag outcome =
     Some (Inr (t\<lparr>m_connManagersUseCount := m_connManagersUseCount t + 1\<rparr>, r, [(AWS_ERROR_SUCCESS, Some [])]))"
  unfolding PutObject_def Let_def
  by (simp add: MakeSignedRequest_nonempty[OF managers] deliver_def fold_invoke_state RetrieveETag_def
      sign conn stream complete checkStatus_def fold_onIncomingHeaders_no_ETag[OF noETag])

text \<open>An empty ETag among the ETags is an empty \<open>ETag\<close> element of the body.\<close>

lemma parts_empty_ETag:
  assumes "[] \<in> set etags"
  shows "\<exists>pre post. CompleteMultipartUpload_parts etags i = pre @ ''<ETag></ETag>'' @ post"
  using assms
proof (induction etags arbitrary: i)
  case Nil
  then show ?case by simp
next
  case (Cons etag etags)
  show ?case
  proof (cases "etag = []")
    case True
    have "CompleteMultipartUpload_parts (etag # etags) i =
        (''   <Part>\<newline>'' @ ''       '') @ ''<ETag></ETag>'' @
        (''\<newline>'' @ ''       <PartNumber>'' @ decimal (i + 1) @ ''</PartNumber>\<newline>'' @
         ''   </Part>\<newline>'' @ CompleteMultipartUpload_parts etags (Suc i))"
      using True by simp
    then show ?thesis by blast
  next
    case False
    with Cons.prems have "[] \<in> set etags" by auto
    from Cons.IH[OF this, of "Suc i"] obtain pre post where
      p: "CompleteMultipartUpload_parts etags (Suc i) = pre @ ''<ETag></ETag>'' @ post" by blast
    have "CompleteMultipartUpload_parts (etag # etags) i =
        (''   <Part>\<newline>'' @ ''       <ETag>'' @ etag @ ''</ETag>\<newline>'' @
         ''       <PartNumber>'' @ decimal (i + 1) @ ''</PartNumber>\<newline>'' @
         ''   </Part>\<newline>'' @ pre) @ ''<ETag></ETag>'' @ post"
      unfolding CompleteMultipartUpload_parts.simps p by simp
    then show ?thesis by blast
  qed
qed

lemma body_empty_ETag:
  assumes "[] \<in> set etags"
  shows "\<exists>pre post. CompleteMultipartUpload_body etags = pre @ ''<ETag></ETag>'' @ post"
proof -
  from parts_empty_ETag[OF assms, of 0] obtain pre post where
    p: "CompleteMultipartUpload_parts etags 0 = pre @ ''<ETag></ETag>'' @ post" by blast
  have "CompleteMultipartUpload_body etags =
      (xmlDeclaration @ completeOpenTag @ pre) @ ''<ETag></ETag>'' @ (post @ ''</CompleteMultipartUpload>'')"
    unfolding CompleteMultipartUpload_body_def p by simp
  then show ?thesis by blast
qed

subsection \<open>Example uploads\<close>

text \<open>
  The facts that evaluate an upload on the example fabric, and the runs of the example
  uploads: the upload that succeeds after one retry, the upload whose complete request
  fails, the upload whose create request fails, and an upload of no parts.
\<close>

lemmas upload_eval =
  PutObjectMultipart_def MultipartUploadState_new_def SetUploadId_def UploadPart_def
  UploadPart_finished_def SetETag_def IncNumPartsCompleted_def GetETags_def partFinished_def
  GetPartIndex_def GetPartNumber_def SetFinished_def PutObjectMultipart_finishedCallback_def
  CompleteMultipartUpload_def AbortMultipartUpload_def emit_def
  PutObject_completes CreateMultipartUpload_completes statusRequest_completes statusRequest_no_stream
  CreateMultipartUpload_sign_fails ex_scan_U1 exFabric_managers
  CreateMultipartUpload_onStreamComplete_def checkStatus_def PutObject_onIncomingHeaders_def
  exCreated_def exPart_def exPartNoETag_def exStatus_def exSendPart_def decimal_digits
  Let_def

lemma exUpload_run:
  "\<exists>run. PutObjectMultipart exResolver exFabric ''key'' 10 2 exSendPart exUpload = Some (Inr run)
     \<and> trace run =
         [Call_CreateMultipartUpload ''key'',
          Call_PutObject ''key?partNumber=1&uploadId=U-1'' (Some ''data''),
          PartFinished 0 Retry,
          Call_PutObject ''key?partNumber=1&uploadId=U-1'' (Some ''data''),
          PartFinished 0 Done,
          Call_PutObject ''key?partNumber=2&uploadId=U-1'' (Some ''data''),
          Call_CompleteMultipartUpload ''key'' ''U-1'' [''e1'', ''''],
          PartFinished 1 Done,
          Finished AWS_ERROR_SUCCESS 2]
     \<and> m_etags (uploadState run) = [''e1'', '''']
     \<and> m_numPartsCompleted (uploadState run) = 2
     \<and> m_finishedError (uploadState run) = Some AWS_ERROR_SUCCESS"
  by (simp add: upload_eval exUpload_def)



lemma exUpload_no_parts_run:
  "\<exists>run. PutObjectMultipart exResolver exFabric ''key'' 0 0 exSendPart exUpload = Some (Inr run)
     \<and> trace run = [Call_CreateMultipartUpload ''key'']
     \<and> m_numParts (uploadState run) = 0
     \<and> m_numPartsCompleted (uploadState run) = 0
     \<and> m_finishedError (uploadState run) = None"
  by (simp add: upload_eval exUpload_def)


subsection \<open>C2: the complete request\<close>

text \<open>
  Claim C2, for an upload of at least one part. In a run of \<open>PutObjectMultipart\<close>
  that returned, \<open>CompleteMultipartUpload\<close> was called at most once, and it was called
  exactly if every part of the upload was reported \<open>Done\<close>, which is exactly if the
  counter of completed parts stands at the number of parts. So the call was made by the
  increment that reached the number of parts, and there is none while a part is missing.
\<close>

theorem PutObjectMultipart_completes_once:
  assumes run: "PutObjectMultipart r t key objectSize numParts sendPart outcomes = Some (Inr run)"
    and n: "0 < numParts"
  shows "length (filter isComplete (trace run)) \<le> 1
       \<and> (length (filter isComplete (trace run)) = 1 \<longleftrightarrow>
            (\<forall>i < numParts. PartFinished i Done \<in> set (trace run)))
       \<and> (length (filter isComplete (trace run)) = 1 \<longleftrightarrow>
            m_numPartsCompleted (uploadState run) = numParts)"
proof -
  from PutObjectMultipart_inv[OF run] have p: "partsInv run"
    and np: "m_numParts (uploadState run) = numParts" by simp_all
  from p have d: "distinct (doneParts run)"
    and a: "list_all (\<lambda>i. i < numParts) (doneParts run)"
    and c: "m_numPartsCompleted (uploadState run) = length (doneParts run)"
    and m: "\<And>i. (PartFinished i Done \<in> set (trace run)) = (i \<in> set (doneParts run))"
    and k: "length (filter isComplete (trace run)) =
          (if doneParts run \<noteq> [] \<and> length (doneParts run) = numParts then 1 else 0)"
    unfolding partsInv_def np by blast+
  have sub: "set (doneParts run) \<subseteq> {..<numParts}" using a by (auto simp: list_all_iff)
  have card: "card (set (doneParts run)) = length (doneParts run)" using d by (rule distinct_card)
  have all: "(\<forall>i < numParts. PartFinished i Done \<in> set (trace run)) \<longleftrightarrow>
             length (doneParts run) = numParts"
  proof
    assume "\<forall>i < numParts. PartFinished i Done \<in> set (trace run)"
    then have "{..<numParts} \<subseteq> set (doneParts run)" using m by auto
    with sub have "set (doneParts run) = {..<numParts}" by auto
    then show "length (doneParts run) = numParts" using card by simp
  next
    assume l: "length (doneParts run) = numParts"
    have "set (doneParts run) = {..<numParts}"
      by (rule card_subset_eq) (use sub card l in simp_all)
    then show "\<forall>i < numParts. PartFinished i Done \<in> set (trace run)" using m by auto
  qed
  have ne: "length (doneParts run) = numParts \<Longrightarrow> doneParts run \<noteq> []" using n by auto
  have one: "length (filter isComplete (trace run)) = 1 \<longleftrightarrow> length (doneParts run) = numParts"
    using k ne n by auto
  show ?thesis using k one all c by simp
qed

text \<open>
  The theorem at the example upload of two parts, whose first part is retried once.
\<close>

theorem PutObjectMultipart_completes_once_witness:
  "\<exists>run. PutObjectMultipart exResolver exFabric ''key'' 10 2 exSendPart exUpload = Some (Inr run)
     \<and> (0::nat) < 2
     \<and> length (filter isComplete (trace run)) = 1
     \<and> PartFinished 0 Done \<in> set (trace run)
     \<and> PartFinished 1 Done \<in> set (trace run)
     \<and> m_numPartsCompleted (uploadState run) = 2"
proof -
  from exUpload_run obtain run where
    run: "PutObjectMultipart exResolver exFabric ''key'' 10 2 exSendPart exUpload = Some (Inr run)"
    and trace: "trace run =
         [Call_CreateMultipartUpload ''key'',
          Call_PutObject ''key?partNumber=1&uploadId=U-1'' (Some ''data''),
          PartFinished 0 Retry,
          Call_PutObject ''key?partNumber=1&uploadId=U-1'' (Some ''data''),
          PartFinished 0 Done,
          Call_PutObject ''key?partNumber=2&uploadId=U-1'' (Some ''data''),
          Call_CompleteMultipartUpload ''key'' ''U-1'' [''e1'', ''''],
          PartFinished 1 Done,
          Finished AWS_ERROR_SUCCESS 2]"
    by blast
  have once: "length (filter isComplete (trace run)) = 1" unfolding trace by simp
  have n: "(0::nat) < 2" by simp
  note c = PutObjectMultipart_completes_once[OF run n, THEN conjunct2]
  have parts: "\<forall>i<2. PartFinished i Done \<in> set (trace run)"
    using c[THEN conjunct1] once by (rule iffD1)
  have counter: "m_numPartsCompleted (uploadState run) = 2"
    using c[THEN conjunct2] once by (rule iffD1)
  from parts have "PartFinished 0 Done \<in> set (trace run)" "PartFinished 1 Done \<in> set (trace run)"
    by simp_all
  with run once counter show ?thesis by (intro exI[of _ run]) simp
qed

text \<open>
  An upload of no parts: every one of its parts has finished and the counter stands at
  the number of parts, and the complete request is never made, since only the callback
  of a part makes it.
\<close>

theorem PutObjectMultipart_no_parts:
  "\<exists>run. PutObjectMultipart exResolver exFabric ''key'' 0 0 exSendPart exUpload = Some (Inr run)
     \<and> m_numParts (uploadState run) = 0
     \<and> (\<forall>i < m_numParts (uploadState run). PartFinished i Done \<in> set (trace run))
     \<and> m_numPartsCompleted (uploadState run) = m_numParts (uploadState run)
     \<and> filter isComplete (trace run) = []"
proof -
  from exUpload_no_parts_run obtain run where
    "PutObjectMultipart exResolver exFabric ''key'' 0 0 exSendPart exUpload = Some (Inr run)"
    "trace run = [Call_CreateMultipartUpload ''key'']"
    "m_numParts (uploadState run) = 0" "m_numPartsCompleted (uploadState run) = 0"
    by blast
  then show ?thesis by (intro exI[of _ run]) simp
qed

subsection \<open>C3: the abort request\<close>




subsection \<open>C8: a part response without an ETag header\<close>

text \<open>
  Claim C8. On a fabric with connection managers, let the request of a part complete
  without error and with the status 200, no header of the response being named exactly
  \<open>ETag\<close>. Then \<open>UploadPart\<close> returns, the ETag stored at the index of the part is
  the empty string, the counter of completed parts is incremented, the part is reported
  \<open>Done\<close>, the body of a complete request made from the ETags contains an empty
  \<open>ETag\<close> element, and if the part was the last one the complete request is made with
  these ETags.
\<close>

theorem UploadPart_missing_ETag:
  assumes managers: "m_connManagers (transport run) \<noteq> []"
    and sign: "signingErrorCode outcome = AWS_ERROR_SUCCESS"
    and conn: "checkConnection (acquiredConnection outcome) (acquireErrorCode outcome) = AWS_ERROR_SUCCESS"
    and stream: "clientStream outcome = Some stream"
    and complete: "completionErrorCode stream = AWS_ERROR_SUCCESS" "ResponseStatusCode stream = 200"
    and noETag: "\<forall>headersArray \<in> set (incomingHeaders stream). \<forall>header \<in> set headersArray. fst header \<noteq> ''ETag''"
  shows "\<exists>run'. UploadPart outcomes ts (Some body) outcome run = Some (Inr run')
      \<and> GetPartIndex ts < length (m_etags (uploadState run'))
      \<and> m_etags (uploadState run') ! GetPartIndex ts = []
      \<and> m_numPartsCompleted (uploadState run') = m_numPartsCompleted (uploadState run) + 1
      \<and> PartFinished (GetPartIndex ts) Done \<in> set (trace run')
      \<and> (\<exists>pre post. CompleteMultipartUpload_body (GetETags (uploadState run')) = pre @ ''<ETag></ETag>'' @ post)
      \<and> (m_numPartsCompleted (uploadState run) + 1 = m_numParts (uploadState run) \<longrightarrow>
           Call_CompleteMultipartUpload (m_key (uploadState run)) (m_uploadId (uploadState run))
             (GetETags (uploadState run')) \<in> set (trace run'))"
proof -
  let ?keyPathStr = "m_key (uploadState run) @ ''?partNumber='' @ decimal (GetPartNumber ts)
                         @ ''&uploadId='' @ m_uploadId (uploadState run)"
  let ?t = "(transport run)\<lparr>m_connManagersUseCount := m_connManagersUseCount (transport run) + 1\<rparr>"
  let ?run0 = "emit [Call_PutObject ?keyPathStr (Some body)] (run\<lparr>transport := ?t, resolver := resolver run\<rparr>)"
  define state2 where
    "state2 = snd (IncNumPartsCompleted (SetETag (uploadState ?run0) (GetPartIndex ts) []))"
  have state2: "m_key state2 = m_key (uploadState run)" "m_uploadId state2 = m_uploadId (uploadState run)"
    "m_numPartsCompleted state2 = m_numPartsCompleted (uploadState run) + 1"
    by (simp_all add: state2_def)
  have u: "UploadPart outcomes ts (Some body) outcome run =
           UploadPart_finished outcomes ts (AWS_ERROR_SUCCESS, Some []) ?run0"
    unfolding UploadPart_def Let_def
      PutObject_no_ETag[OF managers sign conn stream complete noETag]
    by simp
  have etags: "GetPartIndex ts < length (m_etags state2)" "m_etags state2 ! GetPartIndex ts = []"
    using SetETag_etags[where i = "GetPartIndex ts" and state = "uploadState ?run0" and e = "[]"]
    by (simp_all add: state2_def)
  have "[] \<in> set (m_etags state2)" using nth_mem[OF etags(1)] unfolding etags(2) .
  from body_empty_ETag[OF this] have body: "\<exists>pre post.
      CompleteMultipartUpload_body (m_etags state2) = pre @ ''<ETag></ETag>'' @ post" .
  show ?thesis
  proof (cases "m_numPartsCompleted (uploadState run) + 1 = m_numParts (uploadState run)")
    case False
    then have notlast: "m_numPartsCompleted (uploadState ?run0) + 1 \<noteq> m_numParts (uploadState ?run0)"
      by simp
    let ?run' = "partFinished ts Done (?run0\<lparr>uploadState := state2\<rparr>)"
    have r: "UploadPart outcomes ts (Some body) outcome run = Some (Inr ?run')"
      unfolding u UploadPart_finished_done[OF notlast] state2_def ..
    have 1: "uploadState ?run' = state2" by simp
    have 2: "PartFinished (GetPartIndex ts) Done \<in> set (trace ?run')" by simp
    have 3: "m_numPartsCompleted (uploadState ?run') = m_numPartsCompleted (uploadState run) + 1"
      by (simp add: state2)
    show ?thesis
    proof (intro exI[of _ ?run'] conjI impI)
      show "UploadPart outcomes ts (Some body) outcome run = Some (Inr ?run')" by (rule r)
      show "GetPartIndex ts < length (m_etags (uploadState ?run'))" unfolding 1 by (rule etags(1))
      show "m_etags (uploadState ?run') ! GetPartIndex ts = []" unfolding 1 by (rule etags(2))
      show "m_numPartsCompleted (uploadState ?run') = m_numPartsCompleted (uploadState run) + 1"
        by (rule 3)
      show "PartFinished (GetPartIndex ts) Done \<in> set (trace ?run')" by (rule 2)
      show "\<exists>pre post. CompleteMultipartUpload_body (GetETags (uploadState ?run')) =
              pre @ ''<ETag></ETag>'' @ post"
        unfolding GetETags_def 1 by (rule body)
      assume a: "m_numPartsCompleted (uploadState run) + 1 = m_numParts (uploadState run)"
      from False a show "Call_CompleteMultipartUpload (m_key (uploadState run)) (m_uploadId (uploadState run))
             (GetETags (uploadState ?run')) \<in> set (trace ?run')"
        by (rule notE)
    qed
  next
    case True
    then have last: "m_numPartsCompleted (uploadState ?run0) + 1 = m_numParts (uploadState ?run0)"
      by simp
    let ?events = "[Call_CompleteMultipartUpload (m_key (uploadState run)) (m_uploadId (uploadState run))
                      (m_etags state2)]"
    let ?run1 = "partFinished ts Done (emit ?events (?run0\<lparr>uploadState := state2\<rparr>))"
    have m1: "m_connManagers (transport ?run1) \<noteq> []" using managers by simp
    from statusRequest_returns[OF m1, of 200 "resolver ?run1" "completeOutcome outcomes"]
    obtain t' r' finished where
      c: "statusRequest 200 (resolver ?run1) (transport ?run1) (completeOutcome outcomes) =
            Some (Inr (t', r', finished))"
      and m': "m_connManagers t' = m_connManagers (transport ?run1)" by blast
    let ?run2 = "?run1\<lparr>transport := t', resolver := r'\<rparr>"
    have m2: "m_connManagers (transport ?run2) \<noteq> []" using m' m1 by simp
    from fold_SetFinished_returns[OF m2, of outcomes finished] obtain run' where
      f: "fold_run (SetFinished outcomes) finished ?run2 = Some (Inr run')"
      and fin: "finishes ?run2 run'" by blast
    have inc: "IncNumPartsCompleted (SetETag (uploadState ?run0) (GetPartIndex ts) []) = (True, state2)"
      using last by (simp add: IncNumPartsCompleted_def state2_def)
    have "UploadPart_finished outcomes ts (AWS_ERROR_SUCCESS, Some []) ?run0 =
          bind_run (CompleteMultipartUpload (resolver ?run1) (transport ?run1) (m_key state2)
                      (m_uploadId state2) (GetETags state2) (completeOutcome outcomes))
            (\<lambda>(t', r', finished). fold_run (SetFinished outcomes) finished
                                     (?run1\<lparr>transport := t', resolver := r'\<rparr>))"
      unfolding UploadPart_finished_def prod.case option.case Let_def inc
      by (simp add: GetETags_def state2)
    also have "\<dots> = Some (Inr run')"
      unfolding CompleteMultipartUpload_def c using f by simp
    finally have r: "UploadPart outcomes ts (Some body) outcome run = Some (Inr run')"
      unfolding u .
    have 1: "m_etags (uploadState run') = m_etags state2"
      using finishes_frame(5)[OF fin] by simp
    have 3: "m_numPartsCompleted (uploadState run') = m_numPartsCompleted (uploadState run) + 1"
      using finishes_frame(6)[OF fin] by (simp add: state2)
    have 2: "PartFinished (GetPartIndex ts) Done \<in> set (trace run')"
      unfolding finishes_frame(8)[OF fin] by simp
    have 4: "Call_CompleteMultipartUpload (m_key (uploadState run)) (m_uploadId (uploadState run))
               (m_etags state2) \<in> set (trace run')"
      unfolding finishes_frame(9)[OF fin] by simp
    show ?thesis
    proof (intro exI[of _ run'] conjI impI)
      show "UploadPart outcomes ts (Some body) outcome run = Some (Inr run')" by (rule r)
      show "GetPartIndex ts < length (m_etags (uploadState run'))" unfolding 1 by (rule etags(1))
      show "m_etags (uploadState run') ! GetPartIndex ts = []" unfolding 1 by (rule etags(2))
      show "m_numPartsCompleted (uploadState run') = m_numPartsCompleted (uploadState run) + 1"
        by (rule 3)
      show "PartFinished (GetPartIndex ts) Done \<in> set (trace run')" by (rule 2)
      show "\<exists>pre post. CompleteMultipartUpload_body (GetETags (uploadState run')) =
              pre @ ''<ETag></ETag>'' @ post"
        unfolding GetETags_def 1 by (rule body)
      show "Call_CompleteMultipartUpload (m_key (uploadState run)) (m_uploadId (uploadState run))
             (GetETags (uploadState run')) \<in> set (trace run')"
        unfolding GetETags_def 1 by (rule 4)
    qed
  qed
qed

text \<open>
  The theorem at the second part of the example upload, whose response has a header
  named \<open>etag\<close> and none named \<open>ETag\<close>.
\<close>

theorem UploadPart_missing_ETag_witness:
  "m_connManagers (transport exRunning) \<noteq> []
   \<and> signingErrorCode exPartNoETag = AWS_ERROR_SUCCESS
   \<and> checkConnection (acquiredConnection exPartNoETag) (acquireErrorCode exPartNoETag) = AWS_ERROR_SUCCESS
   \<and> clientStream exPartNoETag = Some (exStream 200 [[(''Content-Length'', ''0''), (''etag'', ''e2'')]] [])
   \<and> completionErrorCode (exStream 200 [[(''Content-Length'', ''0''), (''etag'', ''e2'')]] []) = AWS_ERROR_SUCCESS
   \<and> ResponseStatusCode (exStream 200 [[(''Content-Length'', ''0''), (''etag'', ''e2'')]] []) = 200
   \<and> concat (map (map fst) (incomingHeaders (exStream 200 [[(''Content-Length'', ''0''), (''etag'', ''e2'')]] [])))
        = [''Content-Length'', ''etag'']
   \<and> (\<exists>run'. UploadPart exUpload \<lparr>m_partIndex = 1\<rparr> (Some ''data'') exPartNoETag exRunning = Some (Inr run')
        \<and> 1 < length (m_etags (uploadState run'))
        \<and> m_etags (uploadState run') ! 1 = ''''
        \<and> m_numPartsCompleted (uploadState run') = 2
        \<and> PartFinished 1 Done \<in> set (trace run')
        \<and> Call_CompleteMultipartUpload ''key'' ''U-1'' (GetETags (uploadState run')) \<in> set (trace run'))"
proof -
  let ?stream = "exStream 200 [[(''Content-Length'', ''0''), (''etag'', ''e2'')]] []"
  have h1: "m_connManagers (transport exRunning) \<noteq> []"
    by (simp add: exRunning_def exFabric_managers)
  have h2: "signingErrorCode exPartNoETag = AWS_ERROR_SUCCESS"
    and h3: "checkConnection (acquiredConnection exPartNoETag) (acquireErrorCode exPartNoETag) = AWS_ERROR_SUCCESS"
    and h4: "clientStream exPartNoETag = Some ?stream"
    by (simp_all add: exPartNoETag_def checkConnection_def)
  have h5: "completionErrorCode ?stream = AWS_ERROR_SUCCESS" and h6: "ResponseStatusCode ?stream = 200"
    and names: "concat (map (map fst) (incomingHeaders ?stream)) = [''Content-Length'', ''etag'']"
    by simp_all
  have h7: "\<forall>headersArray \<in> set (incomingHeaders ?stream). \<forall>header \<in> set headersArray. fst header \<noteq> ''ETag''"
    by simp
  have fields: "GetPartIndex \<lparr>m_partIndex = 1\<rparr> = 1"
    "m_numPartsCompleted (uploadState exRunning) = 1" "m_numParts (uploadState exRunning) = 2"
    "m_key (uploadState exRunning) = ''key''" "m_uploadId (uploadState exRunning) = ''U-1''"
    by (simp_all add: GetPartIndex_def exRunning_def)
  from UploadPart_missing_ETag[OF h1 h2 h3 h4 h5 h6 h7, of exUpload "\<lparr>m_partIndex = 1\<rparr>" "''data''",
      unfolded fields]
  obtain run' where
    r: "UploadPart exUpload \<lparr>m_partIndex = 1\<rparr> (Some ''data'') exPartNoETag exRunning = Some (Inr run')"
    and e: "1 < length (m_etags (uploadState run'))" "m_etags (uploadState run') ! 1 = []"
    and c: "m_numPartsCompleted (uploadState run') = 1 + 1"
    and p: "PartFinished 1 Done \<in> set (trace run')"
    and l: "(1::nat) + 1 = 2 \<longrightarrow>
           Call_CompleteMultipartUpload ''key'' ''U-1'' (GetETags (uploadState run')) \<in> set (trace run')"
    by blast
  from l have l': "Call_CompleteMultipartUpload ''key'' ''U-1'' (GetETags (uploadState run')) \<in> set (trace run')"
    by simp
  from c have c': "m_numPartsCompleted (uploadState run') = 2" by simp
  have "\<exists>run'. UploadPart exUpload \<lparr>m_partIndex = 1\<rparr> (Some ''data'') exPartNoETag exRunning = Some (Inr run')
        \<and> 1 < length (m_etags (uploadState run'))
        \<and> m_etags (uploadState run') ! 1 = ''''
        \<and> m_numPartsCompleted (uploadState run') = 2
        \<and> PartFinished 1 Done \<in> set (trace run')
        \<and> Call_CompleteMultipartUpload ''key'' ''U-1'' (GetETags (uploadState run')) \<in> set (trace run')"
    using r e c' p l' by (intro exI[of _ run'] conjI)
  with h1 h2 h3 h4 h5 h6 names show ?thesis by (intro conjI)
qed

subsection \<open>An upload returns\<close>

text \<open>
  On a fabric with connection managers, with a \<open>sendPart\<close> that delivers a body
  for every part, and with a NUL byte in the memory at every body chunk of the create
  response, every request of an upload returns, and so does the upload.
\<close>

lemma PutObject_returns:
  assumes "m_connManagers t \<noteq> []"
  shows "\<exists>t' r' finished. PutObject r t key (Some b) flags outcome = Some (Inr (t', r', finished))
           \<and> m_connManagers t' = m_connManagers t"
  unfolding PutObject_def Let_def
  by (simp add: MakeSignedRequest_nonempty[OF assms] split: option.splits prod.splits)

lemma fold_CreateMultipartUpload_onIncomingBody_readable:
  assumes "\<forall>data \<in> set chunks. CHR 0x00 \<in> set (ptr data)"
  shows "\<exists>uploadId'. fold CreateMultipartUpload_onIncomingBody chunks (Some uploadId) = Some uploadId'"
  using assms
proof (induction chunks arbitrary: uploadId)
  case Nil
  then show ?case by simp
next
  case (Cons data chunks)
  from Cons.prems have "CHR 0x00 \<in> set (ptr data)" by simp
  then obtain dataString where "String_of_ptr (ptr data) = Some dataString"
    by (auto simp: String_of_ptr_def)
  from CreateMultipartUpload_onIncomingBody_first_pair[OF this, of uploadId]
  obtain uploadId1 where "CreateMultipartUpload_onIncomingBody data (Some uploadId) = Some uploadId1"
    by blast
  moreover from Cons.IH[of uploadId1] Cons.prems obtain uploadId' where
    "fold CreateMultipartUpload_onIncomingBody chunks (Some uploadId1) = Some uploadId'" by auto
  ultimately show ?case by simp
qed

lemma CreateMultipartUpload_returns:
  assumes "m_connManagers t \<noteq> []"
    and "\<forall>stream. clientStream outcome = Some stream \<longrightarrow>
           (\<forall>data \<in> set (incomingBody stream). CHR 0x00 \<in> set (ptr data))"
  shows "\<exists>t' r' finished. CreateMultipartUpload r t key outcome = Some (Inr (t', r', finished))
           \<and> m_connManagers t' = m_connManagers t"
proof (cases "clientStream outcome")
  case None
  then show ?thesis
    unfolding CreateMultipartUpload_def Let_def
    by (simp add: MakeSignedRequest_nonempty[OF assms(1)])
next
  case (Some stream)
  with assms(2) have "\<forall>data \<in> set (incomingBody stream). CHR 0x00 \<in> set (ptr data)" by simp
  from fold_CreateMultipartUpload_onIncomingBody_readable[OF this, of "[]"] obtain uploadId where
    "fold CreateMultipartUpload_onIncomingBody (incomingBody stream) (Some []) = Some uploadId" by blast
  then show ?thesis
    unfolding CreateMultipartUpload_def Let_def
    by (simp add: MakeSignedRequest_nonempty[OF assms(1)] Some deliver_def fold_invoke_state)
qed

lemma UploadPart_finished_returns:
  assumes m: "m_connManagers (transport run) \<noteq> []"
  shows "\<exists>run'. UploadPart_finished outcomes ts result run = Some (Inr run')
           \<and> m_connManagers (transport run') = m_connManagers (transport run)"
proof -
  obtain errorCode etag where result: "result = (errorCode, etag)" by (cases result)
  show ?thesis
  proof (cases "etag \<noteq> None \<and> errorCode = AWS_ERROR_SUCCESS")
    case False
    then have "UploadPart_finished outcomes ts result run = Some (Inr (partFinished ts Retry run))"
      unfolding result UploadPart_finished_def by (auto split: option.splits)
    then show ?thesis by simp
  next
    case True
    then obtain e where etag: "etag = Some e" and ok: "errorCode = AWS_ERROR_SUCCESS" by auto
    define state2 where "state2 = snd (IncNumPartsCompleted (SetETag (uploadState run) (GetPartIndex ts) e))"
    show ?thesis
    proof (cases "m_numPartsCompleted (uploadState run) + 1 = m_numParts (uploadState run)")
      case notlast: False
      show ?thesis unfolding result etag ok UploadPart_finished_done[OF notlast] by simp
    next
      case last: True
      let ?events = "[Call_CompleteMultipartUpload (m_key state2) (m_uploadId state2) (GetETags state2)]"
      let ?run1 = "partFinished ts Done (emit ?events (run\<lparr>uploadState := state2\<rparr>))"
      have m1: "m_connManagers (transport ?run1) \<noteq> []" using m by simp
      from statusRequest_returns[OF m1, of 200 "resolver ?run1" "completeOutcome outcomes"]
      obtain t' r' finished where
        c: "statusRequest 200 (resolver ?run1) (transport ?run1) (completeOutcome outcomes) =
              Some (Inr (t', r', finished))"
        and m': "m_connManagers t' = m_connManagers (transport ?run1)" by blast
      let ?run2 = "?run1\<lparr>transport := t', resolver := r'\<rparr>"
      have m2: "m_connManagers (transport ?run2) \<noteq> []" using m' m1 by simp
      from fold_SetFinished_returns[OF m2, of outcomes finished] obtain run' where
        f: "fold_run (SetFinished outcomes) finished ?run2 = Some (Inr run')"
        and mm: "m_connManagers (transport run') = m_connManagers (transport ?run2)" by blast
      have inc: "IncNumPartsCompleted (SetETag (uploadState run) (GetPartIndex ts) e) = (True, state2)"
        using last by (simp add: IncNumPartsCompleted_def state2_def)
      have "UploadPart_finished outcomes ts (AWS_ERROR_SUCCESS, Some e) run =
            bind_run (CompleteMultipartUpload (resolver ?run1) (transport ?run1) (m_key state2)
                        (m_uploadId state2) (GetETags state2) (completeOutcome outcomes))
              (\<lambda>(t', r', finished). fold_run (SetFinished outcomes) finished
                                       (?run1\<lparr>transport := t', resolver := r'\<rparr>))"
        unfolding UploadPart_finished_def prod.case option.case Let_def inc by simp
      also have "\<dots> = Some (Inr run')"
        unfolding CompleteMultipartUpload_def c using f by simp
      finally have r: "UploadPart_finished outcomes ts result run = Some (Inr run')"
        unfolding result etag ok .
      have "m_connManagers (transport run') = m_connManagers (transport run)"
        unfolding mm using m' by simp
      with r show ?thesis by blast
    qed
  qed
qed

lemma fold_UploadPart_finished_returns:
  assumes "m_connManagers (transport run) \<noteq> []"
  shows "\<exists>run'. fold_run (UploadPart_finished outcomes ts) finished run = Some (Inr run')
           \<and> m_connManagers (transport run') = m_connManagers (transport run)"
  using assms
proof (induction finished arbitrary: run)
  case Nil
  then show ?case by simp
next
  case (Cons result finished)
  from UploadPart_finished_returns[OF Cons.prems, of outcomes ts result] obtain run1 where
    1: "UploadPart_finished outcomes ts result run = Some (Inr run1)"
    and m: "m_connManagers (transport run1) = m_connManagers (transport run)" by blast
  from Cons.IH[of run1] m Cons.prems obtain run' where
    2: "fold_run (UploadPart_finished outcomes ts) finished run1 = Some (Inr run')"
    and m': "m_connManagers (transport run') = m_connManagers (transport run1)" by auto
  show ?case using 1 2 m m' by simp
qed

lemma UploadPart_returns:
  assumes m: "m_connManagers (transport run) \<noteq> []"
  shows "\<exists>run'. UploadPart outcomes ts (Some body) outcome run = Some (Inr run')
           \<and> m_connManagers (transport run') = m_connManagers (transport run)"
proof -
  let ?keyPathStr = "m_key (uploadState run) @ ''?partNumber='' @ decimal (GetPartNumber ts)
                         @ ''&uploadId='' @ m_uploadId (uploadState run)"
  from PutObject_returns[OF m, of "resolver run" ?keyPathStr body RetrieveETag outcome]
  obtain t' r' finished where
    p: "PutObject (resolver run) (transport run) ?keyPathStr (Some body) RetrieveETag outcome =
          Some (Inr (t', r', finished))"
    and m': "m_connManagers t' = m_connManagers (transport run)" by blast
  let ?run0 = "emit [Call_PutObject ?keyPathStr (Some body)] (run\<lparr>transport := t', resolver := r'\<rparr>)"
  have m0: "m_connManagers (transport ?run0) \<noteq> []" using m m' by simp
  from fold_UploadPart_finished_returns[OF m0, of outcomes ts finished] obtain run' where
    f: "fold_run (UploadPart_finished outcomes ts) finished ?run0 = Some (Inr run')"
    and mm: "m_connManagers (transport run') = m_connManagers (transport ?run0)" by blast
  have "UploadPart outcomes ts (Some body) outcome run = Some (Inr run')"
    unfolding UploadPart_def Let_def p using f by simp
  moreover have "m_connManagers (transport run') = m_connManagers (transport run)"
    unfolding mm using m' by simp
  ultimately show ?thesis by blast
qed

lemma processParts_returns:
  assumes "m_connManagers (transport run) \<noteq> []" and "\<forall>ts. sendPart ts \<noteq> None"
  shows "\<exists>run'. processParts outcomes sendPart attempts run = Some (Inr run')"
  using assms(1)
proof (induction attempts arbitrary: run)
  case Nil
  then show ?case by simp
next
  case (Cons attempt attempts)
  obtain partIndex outcome where a: "attempt = (partIndex, outcome)" by (cases attempt)
  show ?case
  proof (cases "partIndex < m_numParts (uploadState run) \<and> partIndex \<notin> set (doneParts run)")
    case False
    then have "processParts outcomes sendPart (attempt # attempts) run =
               processParts outcomes sendPart attempts run"
      unfolding a by auto
    then show ?thesis using Cons.IH[OF Cons.prems] by simp
  next
    case True
    from assms(2)[rule_format, of "\<lparr>m_partIndex = partIndex\<rparr>"] obtain body where
      b: "sendPart \<lparr>m_partIndex = partIndex\<rparr> = Some body" by auto
    from UploadPart_returns[OF Cons.prems, of outcomes "\<lparr>m_partIndex = partIndex\<rparr>" body outcome]
    obtain run1 where
      u: "UploadPart outcomes \<lparr>m_partIndex = partIndex\<rparr> (Some body) outcome run = Some (Inr run1)"
      and m: "m_connManagers (transport run1) = m_connManagers (transport run)" by blast
    from Cons.IH[of run1] m Cons.prems obtain run' where
      "processParts outcomes sendPart attempts run1 = Some (Inr run')" by auto
    then show ?thesis unfolding a using True u b by simp
  qed
qed

lemma PutObjectMultipart_returns:
  assumes m: "m_connManagers t \<noteq> []" and s: "\<forall>ts. sendPart ts \<noteq> None"
    and c: "\<forall>stream. clientStream (createOutcome outcomes) = Some stream \<longrightarrow>
           (\<forall>data \<in> set (incomingBody stream). CHR 0x00 \<in> set (ptr data))"
  shows "\<exists>run. PutObjectMultipart r t key objectSize numParts sendPart outcomes = Some (Inr run)"
proof -
  from CreateMultipartUpload_returns[OF m c, of r key]
  obtain t' r' finished where
    c: "CreateMultipartUpload r t key (createOutcome outcomes) = Some (Inr (t', r', finished))"
    and m': "m_connManagers t' = m_connManagers t" by blast
  from CreateMultipartUpload_at_most_once[OF c] have "length finished \<le> 1" .
  then consider "finished = []" | result where "finished = [result]"
    using length_le_1_cases by blast
  then show ?thesis
  proof cases
    case 1
    then show ?thesis unfolding PutObjectMultipart_def Let_def c by simp
  next
    case 2
    obtain errorCode uploadId where result: "result = (errorCode, uploadId)" by (cases result)
    let ?run0 = "\<lparr>transport = t', resolver = r',
                  uploadState = MultipartUploadState_new key objectSize numParts,
                  trace = [Call_CreateMultipartUpload key], doneParts = []\<rparr>"
    have m0: "m_connManagers (transport ?run0) \<noteq> []" using m m' by simp
    show ?thesis
    proof (cases "errorCode = AWS_ERROR_SUCCESS")
      case False
      from SetFinished_returns[OF m0, of outcomes errorCode] obtain run' where
        "SetFinished outcomes errorCode ?run0 = Some (Inr run')" by blast
      then show ?thesis unfolding PutObjectMultipart_def Let_def c 2 result using False
        by (simp add: fold_run_single)
    next
      case True
      let ?run1 = "?run0\<lparr>uploadState := SetUploadId (uploadState ?run0) uploadId\<rparr>"
      have m1: "m_connManagers (transport ?run1) \<noteq> []" using m m' by simp
      from processParts_returns[OF m1 s, where outcomes = outcomes and attempts = "partOutcomes outcomes"] obtain run' where
        "processParts outcomes sendPart (partOutcomes outcomes) ?run1 = Some (Inr run')" by blast
      then show ?thesis unfolding PutObjectMultipart_def Let_def c 2 result using True
        by (simp add: fold_run_single)
    qed
  qed
qed

end
